theory Spec2Isabelle
  imports Main "HOL-Library.Word"
begin

section \<open>The C library functions the parser calls\<close>

text \<open>
  \<^verbatim>\<open>ovdk_args.c\<close> converts its option arguments with \<^verbatim>\<open>strtoul\<close> and \<^verbatim>\<open>atoi\<close> and walks
  the argument vector with \<^verbatim>\<open>getopt_long\<close>. These are functions of the C library, not
  of the repository; they are modelled here after ISO C (7.22.1) and the GNU C library,
  for the "C" locale and an LP64 platform (\<^verbatim>\<open>unsigned long\<close> and \<^verbatim>\<open>long\<close> have 64 bits,
  \<^verbatim>\<open>int\<close> and \<^verbatim>\<open>unsigned\<close> 32). A C string is a \<^typ>\<open>string\<close> without its terminating
  NUL, so \<^verbatim>\<open>*s == '\0'\<close> reads \<open>s = []\<close>.
\<close>

subsection \<open>Characters and digits\<close>

definition isspace :: "char \<Rightarrow> bool" where
  "isspace c = (c = CHR '' '' \<or> c = CHR 0x09 \<or> c = CHR 0x0A \<or> c = CHR 0x0B
                \<or> c = CHR 0x0C \<or> c = CHR 0x0D)"

text \<open>The value of a character as a digit: \<open>0\<close>-\<open>9\<close>, then the letters of either case from 10.\<close>

definition digit_of :: "char \<Rightarrow> int option" where
  "digit_of c =
     (let k = (of_char c :: int) in
      if 48 \<le> k \<and> k \<le> 57 then Some (k - 48)
      else if 97 \<le> k \<and> k \<le> 122 then Some (k - 87)
      else if 65 \<le> k \<and> k \<le> 90 then Some (k - 55)
      else None)"

definition in_base :: "int \<Rightarrow> char \<Rightarrow> bool" where
  "in_base base c = (case digit_of c of None \<Rightarrow> False | Some d \<Rightarrow> d < base)"

definition digit_val :: "char \<Rightarrow> int" where
  "digit_val c = (case digit_of c of None \<Rightarrow> 0 | Some d \<Rightarrow> d)"

text \<open>The number a digit string denotes in positional notation, most significant digit first.\<close>

definition digits_value :: "int \<Rightarrow> string \<Rightarrow> int" where
  "digits_value base ds = foldl (\<lambda>a c. a * base + digit_val c) 0 ds"

subsection \<open>strtoul, strtol, atoi\<close>

definition strip_sign :: "string \<Rightarrow> bool \<times> string" where
  "strip_sign s =
     (case s of
        [] \<Rightarrow> (False, s)
      | c # r \<Rightarrow> if c = CHR ''-'' then (True, r)
                else if c = CHR ''+'' then (False, r)
                else (False, s))"

text \<open>
  In base 16 the digits may follow \<^verbatim>\<open>0x\<close> or \<^verbatim>\<open>0X\<close>. The prefix belongs to the number
  only when a hexadecimal digit follows it; otherwise the number is the \<^verbatim>\<open>0\<close> alone.
\<close>

definition strip_0x :: "int \<Rightarrow> string \<Rightarrow> string" where
  "strip_0x base s =
     (case s of
        c0 # c1 # c2 # r \<Rightarrow>
          if base = 16 \<and> c0 = CHR ''0'' \<and> (c1 = CHR ''x'' \<or> c1 = CHR ''X'') \<and> in_base 16 c2
          then c2 # r else s
      | _ \<Rightarrow> s)"

text \<open>
  The subject sequence: white space, an optional sign, the optional prefix, then the
  longest run of digits of the base. \<open>None\<close> when there is no digit; otherwise whether a
  minus sign was read, the mathematical value of the digits, and the rest of the string
  (where \<^verbatim>\<open>endptr\<close> points).
\<close>

definition scan_number :: "int \<Rightarrow> string \<Rightarrow> (bool \<times> int \<times> string) option" where
  "scan_number base s =
     (case strip_sign (dropWhile isspace s) of
        (neg, s2) \<Rightarrow>
          (let s3 = strip_0x base s2; ds = takeWhile (in_base base) s3 in
           if ds = [] then None
           else Some (neg, digits_value base ds, dropWhile (in_base base) s3)))"

definition ULONG_MAX :: int where
  "ULONG_MAX = 2 ^ 64 - 1"

definition LONG_MAX :: int where
  "LONG_MAX = 2 ^ 63 - 1"

text \<open>
  \<^verbatim>\<open>strtoul(nptr, &end, base)\<close> returns the number and \<^verbatim>\<open>end\<close>. With no digits the
  result is 0 and \<^verbatim>\<open>end\<close> is \<^verbatim>\<open>nptr\<close>. A value above \<^verbatim>\<open>ULONG_MAX\<close> gives \<^verbatim>\<open>ULONG_MAX\<close>;
  a minus sign negates the value in the unsigned type. \<^verbatim>\<open>end\<close> is never \<^verbatim>\<open>NULL\<close>.
\<close>

definition strtoul :: "string \<Rightarrow> int \<Rightarrow> 64 word \<times> string" where
  "strtoul nptr base =
     (case scan_number base nptr of
        None \<Rightarrow> (0, nptr)
      | Some (neg, v, endp) \<Rightarrow>
          (if ULONG_MAX < v then word_of_int ULONG_MAX
           else if neg then - word_of_int v
           else word_of_int v, endp))"

text \<open>
  \<^verbatim>\<open>strtol\<close> clamps to \<^verbatim>\<open>LONG_MIN\<close> and \<^verbatim>\<open>LONG_MAX\<close>. A signed value is a word in
  two's complement, read with \<^const>\<open>sint\<close>.
\<close>

definition strtol :: "string \<Rightarrow> int \<Rightarrow> 64 word \<times> string" where
  "strtol nptr base =
     (case scan_number base nptr of
        None \<Rightarrow> (0, nptr)
      | Some (neg, v, endp) \<Rightarrow>
          (if neg then (if LONG_MAX + 1 < v then - word_of_int (LONG_MAX + 1) else - word_of_int v)
           else (if LONG_MAX < v then word_of_int LONG_MAX else word_of_int v), endp))"

text \<open>\<^verbatim>\<open>atoi(s)\<close> is \<^verbatim>\<open>(int) strtol(s, NULL, 10)\<close>: the low 32 bits of the \<^verbatim>\<open>long\<close>.\<close>

definition atoi :: "string \<Rightarrow> 32 word" where
  "atoi nptr = ucast (fst (strtol nptr 10))"

text \<open>
  \<^verbatim>\<open>strncmp(a, b, n)\<close>, as far as its callers look at it: 0 when the first \<open>n\<close>
  characters agree (a shorter string ends at its NUL), 1 otherwise.
\<close>

definition strncmp :: "string \<Rightarrow> string \<Rightarrow> nat \<Rightarrow> int" where
  "strncmp a b n = (if take n a = take n b then 0 else 1)"

subsection \<open>getopt_long\<close>

text \<open>
  The GNU \<^verbatim>\<open>getopt_long\<close> in its default mode (the option string starts with none of
  \<^verbatim>\<open>+ - :\<close>, \<^verbatim>\<open>POSIXLY_CORRECT\<close> is not set): it scans \<^verbatim>\<open>argv[1..]\<close>, passes over
  non-options and stops at \<^verbatim>\<open>--\<close> or at the end. The library moves the non-options it
  has passed behind the options, lazily, at the start of the next call; nothing at or
  after \<^verbatim>\<open>optind\<close> moves, and \<^verbatim>\<open>argv[optind - 1]\<close> read right after a call is the
  element the call consumed last, so the model leaves \<open>argv\<close> as it is. When the library
  returns \<^verbatim>\<open>EOF\<close> it sets \<^verbatim>\<open>optind\<close> to the first of the moved non-options; the program
  does not read it then, and the model sets it to \<open>argc\<close>.

  A \<^verbatim>\<open>struct option\<close>; the \<^verbatim>\<open>flag\<close> member is \<^verbatim>\<open>NULL\<close> in every entry of this program.
\<close>

record long_option =
  lo_name :: string
  lo_has_arg :: nat
  lo_val :: int

text \<open>
  The state of the library between calls: \<^verbatim>\<open>optind\<close>, the rest of the element being
  scanned (\<^verbatim>\<open>nextchar\<close>), and the results \<^verbatim>\<open>optarg\<close> (\<open>None\<close> is \<^verbatim>\<open>NULL\<close>) and \<^verbatim>\<open>optopt\<close>.
\<close>

record getopt_state =
  optind :: nat
  nextchar :: string
  optarg :: "string option"
  optopt :: int

definition getopt_init :: getopt_state where
  "getopt_init = \<lparr>optind = 1, nextchar = [], optarg = None, optopt = 63\<rparr>"

definition EOF :: int where
  "EOF = - 1"

definition NONOPTION_P :: "string \<Rightarrow> bool" where
  "NONOPTION_P a = (case a of c # _ # _ \<Rightarrow> c \<noteq> CHR ''-'' | _ \<Rightarrow> True)"

text \<open>\<^verbatim>\<open>while (optind < argc && NONOPTION_P) optind++;\<close>\<close>

definition skip_nonoptions :: "string list \<Rightarrow> nat \<Rightarrow> nat" where
  "skip_nonoptions argv i = i + length (takeWhile NONOPTION_P (drop i argv))"

datatype long_match = NoMatch | Ambiguous | Match nat long_option

text \<open>
  The look-up of a long option's name: an exact match wins; otherwise the first entry the
  name is a prefix of, and the abbreviation is ambiguous only when a later entry it also
  abbreviates differs in \<^verbatim>\<open>has_arg\<close>, \<^verbatim>\<open>flag\<close> or \<^verbatim>\<open>val\<close>.
\<close>

definition find_long :: "long_option list \<Rightarrow> string \<Rightarrow> long_match" where
  "find_long longopts nm =
     (case filter (\<lambda>(i, p). lo_name p = nm) (enumerate 0 longopts) of
        (i, p) # _ \<Rightarrow> Match i p
      | [] \<Rightarrow>
         (case filter (\<lambda>(i, p). take (length nm) (lo_name p) = nm) (enumerate 0 longopts) of
            [] \<Rightarrow> NoMatch
          | (i, p) # others \<Rightarrow>
              if list_ex (\<lambda>(j, q). lo_has_arg q \<noteq> lo_has_arg p \<or> lo_val q \<noteq> lo_val p) others
              then Ambiguous else Match i p))"

text \<open>The value returned for an error: \<^verbatim>\<open>':'\<close> if the option string asks for it, else \<^verbatim>\<open>'?'\<close>.\<close>

definition missing_arg_code :: "string \<Rightarrow> int" where
  "missing_arg_code optstring = (if take 1 optstring = '':'' then 58 else 63)"

text \<open>
  A long option, \<open>nextchar\<close> standing behind the \<^verbatim>\<open>--\<close>. The result is the return value,
  the new \<^verbatim>\<open>*longind\<close> and the new state.
\<close>

definition process_long_option ::
  "string list \<Rightarrow> string \<Rightarrow> long_option list \<Rightarrow> nat \<Rightarrow> getopt_state
     \<Rightarrow> int \<times> nat \<times> getopt_state" where
  "process_long_option argv optstring longopts longind d =
     (let nm = takeWhile (\<lambda>c. c \<noteq> CHR ''='') (nextchar d);
          nameend = dropWhile (\<lambda>c. c \<noteq> CHR ''='') (nextchar d);
          d1 = d\<lparr>optind := optind d + 1, nextchar := []\<rparr>
      in case find_long longopts nm of
           NoMatch \<Rightarrow> (63, longind, d1\<lparr>optopt := 0\<rparr>)
         | Ambiguous \<Rightarrow> (63, longind, d1\<lparr>optopt := 0\<rparr>)
         | Match i p \<Rightarrow>
             if nameend \<noteq> [] then
               (if lo_has_arg p \<noteq> 0 then (lo_val p, i, d1\<lparr>optarg := Some (tl nameend)\<rparr>)
                else (63, longind, d1\<lparr>optopt := lo_val p\<rparr>))
             else if lo_has_arg p = 1 then
               (if optind d1 < length argv
                then (lo_val p, i, d1\<lparr>optarg := Some (argv ! optind d1), optind := optind d1 + 1\<rparr>)
                else (missing_arg_code optstring, longind, d1\<lparr>optopt := lo_val p\<rparr>))
             else (lo_val p, i, d1))"

text \<open>
  The next short option character of \<open>nextchar\<close>. \<^verbatim>\<open>optind\<close> moves on when the last
  character of the element is taken; a required argument is the rest of the element or,
  if there is none, the next element whatever it looks like.
\<close>

definition getopt_short ::
  "string list \<Rightarrow> string \<Rightarrow> nat \<Rightarrow> getopt_state \<Rightarrow> int \<times> nat \<times> getopt_state" where
  "getopt_short argv optstring longind d =
     (case nextchar d of
        [] \<Rightarrow> (63, longind, d)
      | c # nc \<Rightarrow>
         (let temp = dropWhile (\<lambda>x. x \<noteq> c) optstring;
              d1 = d\<lparr>nextchar := nc, optind := (if nc = [] then optind d + 1 else optind d)\<rparr>
          in if temp = [] \<or> c = CHR '':'' \<or> c = CHR '';''
             then (63, longind, d1\<lparr>optopt := of_char c\<rparr>)
             else if take 1 (tl temp) = '':'' then
               (if take 1 (tl (tl temp)) = '':'' then
                  (if nc \<noteq> []
                   then (of_char c, longind,
                         d1\<lparr>optarg := Some nc, optind := optind d1 + 1, nextchar := []\<rparr>)
                   else (of_char c, longind, d1\<lparr>optarg := None, nextchar := []\<rparr>))
                else if nc \<noteq> []
                  then (of_char c, longind,
                        d1\<lparr>optarg := Some nc, optind := optind d1 + 1, nextchar := []\<rparr>)
                else if length argv \<le> optind d1
                  then (missing_arg_code optstring, longind,
                        d1\<lparr>optopt := of_char c, nextchar := []\<rparr>)
                else (of_char c, longind,
                      d1\<lparr>optarg := Some (argv ! optind d1), optind := optind d1 + 1,
                         nextchar := []\<rparr>))
             else (of_char c, longind, d1)))"

definition getopt_long ::
  "string list \<Rightarrow> string \<Rightarrow> long_option list \<Rightarrow> nat \<Rightarrow> getopt_state
     \<Rightarrow> int \<times> nat \<times> getopt_state" where
  "getopt_long argv optstring longopts longind d0 =
     (let argc = length argv; d = d0\<lparr>optarg := None\<rparr> in
      if argc < 1 then (EOF, longind, d)
      else if nextchar d = [] then
        (let i = skip_nonoptions argv (optind d) in
         if argc \<le> i then (EOF, longind, d\<lparr>optind := argc\<rparr>)
         else if argv ! i = ''--'' then (EOF, longind, d\<lparr>optind := argc\<rparr>)
         else if take 2 (argv ! i) = ''--''
           then process_long_option argv optstring longopts longind
                  (d\<lparr>optind := i, nextchar := drop 2 (argv ! i)\<rparr>)
         else getopt_short argv optstring longind (d\<lparr>optind := i, nextchar := drop 1 (argv ! i)\<rparr>))
      else getopt_short argv optstring longind d)"

section \<open>ovdk\_args.c\<close>

subsection \<open>Constants and the configuration\<close>

definition PARAM_STATS_INTERVAL :: string where
  "PARAM_STATS_INTERVAL = ''stats_int''"

definition PARAM_STATS_CORE :: string where
  "PARAM_STATS_CORE = ''stats_core''"

definition LOG_LEVEL_BASE :: int where
  "LOG_LEVEL_BASE = 10"

definition PORTMASK_BASE :: int where
  "PORTMASK_BASE = 16"

text \<open>
  \<^verbatim>\<open>rte_log.h\<close> is not part of the source tree at hand. The usage text of
  \<^verbatim>\<open>ovdk_args_usage\<close> gives the two levels the parser uses: the default is 4 (ERROR) and
  the highest is 8 (DEBUG).
\<close>

definition RTE_LOG_ERR :: "32 word" where
  "RTE_LOG_ERR = 4"

definition RTE_LOG_DEBUG :: "32 word" where
  "RTE_LOG_DEBUG = 8"

definition EXIT_FAILURE :: int where
  "EXIT_FAILURE = 1"

definition required_argument :: nat where
  "required_argument = 1"

definition lgopts :: "long_option list" where
  "lgopts = [\<lparr>lo_name = PARAM_STATS_INTERVAL, lo_has_arg = required_argument, lo_val = 0\<rparr>,
             \<lparr>lo_name = PARAM_STATS_CORE, lo_has_arg = required_argument, lo_val = 0\<rparr>]"

text \<open>What the program writes to standard output: the usage text, for a program name.\<close>

datatype out_item = Usage "string option"

text \<open>
  The file-scope variables of \<^verbatim>\<open>ovdk_args.c\<close>, and what has been printed so far.
  \<^verbatim>\<open>progname\<close> is a pointer, \<open>None\<close> when \<^verbatim>\<open>NULL\<close>.
\<close>

record app_config =
  progname :: "string option"
  port_mask :: "64 word"
  stats_interval :: "32 word"
  stats_core :: "32 word"
  log_level :: "32 word"
  max_frame_size :: "32 word"
  printed :: "out_item list"

text \<open>
  The initial values. \<^verbatim>\<open>OVDK_DEFAULT_MAX_FRAME_SIZE\<close> comes from \<^verbatim>\<open>ovdk_config.h\<close>,
  which is not at hand: it is the parameter.
\<close>

definition initial_config :: "32 word \<Rightarrow> app_config" where
  "initial_config OVDK_DEFAULT_MAX_FRAME_SIZE =
     \<lparr>progname = None, port_mask = 0, stats_interval = 0, stats_core = - 1,
      log_level = RTE_LOG_ERR, max_frame_size = OVDK_DEFAULT_MAX_FRAME_SIZE, printed = []\<rparr>"

text \<open>
  How parsing ends: the function returns a value, \<^verbatim>\<open>rte_exit\<close> ends the process with a
  status and a message, or a \<^verbatim>\<open>NULL\<close> pointer is handed to a function that reads through
  it (undefined behaviour in C).
\<close>

datatype outcome = Returned int | Exited int string | Fault

subsection \<open>The functions\<close>

definition ovdk_args_usage :: "string option \<Rightarrow> app_config \<Rightarrow> app_config" where
  "ovdk_args_usage name st = st\<lparr>printed := printed st @ [Usage name]\<rparr>"

definition parse_portmask :: "string \<Rightarrow> app_config \<Rightarrow> int \<times> app_config" where
  "parse_portmask portmask st =
     (case strtoul portmask PORTMASK_BASE of
        (num, endp) \<Rightarrow>
          if portmask = [] \<or> endp \<noteq> [] then (- 1, st)
          else (0, st\<lparr>port_mask := num\<rparr>))"

text \<open>The second argument and the second result are \<^verbatim>\<open>*num\<close> before and after the call.\<close>

definition parse_str_to_uint32t :: "string option \<Rightarrow> 32 word \<Rightarrow> int \<times> 32 word" where
  "parse_str_to_uint32t str num =
     (case str of
        None \<Rightarrow> (- 1, num)
      | Some s \<Rightarrow>
          if s = [] then (- 1, num)
          else (case strtoul s 10 of
                  (temp, endp) \<Rightarrow>
                    if endp \<noteq> [] \<or> temp = 0 then (- 1, num)
                    else (0, ucast temp)))"

definition parse_log_level :: "string option \<Rightarrow> app_config \<Rightarrow> int \<times> app_config" where
  "parse_log_level level_arg st =
     (case level_arg of
        None \<Rightarrow> (- 1, st)
      | Some s \<Rightarrow>
          if s = [] then (- 1, st)
          else (case strtoul s LOG_LEVEL_BASE of
                  (level, endp) \<Rightarrow>
                    if endp \<noteq> [] \<or> level = 0 \<or> ucast RTE_LOG_DEBUG < level then (- 1, st)
                    else (0, st\<lparr>log_level := ucast level\<rparr>)))"

text \<open>\<^verbatim>\<open>argv[i]\<close> for the \<^verbatim>\<open>%s\<close> of a message; \<^verbatim>\<open>argv[argc]\<close> is \<^verbatim>\<open>NULL\<close>.\<close>

definition argv_str :: "string list \<Rightarrow> nat \<Rightarrow> string" where
  "argv_str argv i = (if i < length argv then argv ! i else ''(null)'')"

text \<open>
  The body of the \<^verbatim>\<open>switch\<close>, for the value \<open>opt\<close> that \<^verbatim>\<open>getopt_long\<close> returned, the
  \<open>option_index\<close> it stored and its state \<open>d\<close>. \<open>Inr\<close> is \<^verbatim>\<open>break\<close>: the loop goes on with
  the new configuration; \<open>Inl\<close> leaves the function.
\<close>

definition switch_opt ::
  "string list \<Rightarrow> int \<Rightarrow> nat \<Rightarrow> getopt_state \<Rightarrow> app_config
     \<Rightarrow> (outcome \<times> app_config) + app_config" where
  "switch_opt argv opt option_index d st =
     (if opt = of_char CHR ''p'' then
        (case optarg d of
           None \<Rightarrow> Inl (Fault, st)
         | Some a \<Rightarrow>
            (case parse_portmask a st of
               (rc, st1) \<Rightarrow>
                 if rc \<noteq> 0
                 then Inl (Exited EXIT_FAILURE
                             (''Invalid option specified '' @ [CHR 0x27, char_of opt, CHR 0x27, CHR 0x0A]),
                           ovdk_args_usage (progname st1) st1)
                 else Inr st1))
      else if opt = of_char CHR ''v'' then
        (case parse_log_level (optarg d) st of
           (rc, st1) \<Rightarrow>
             if rc \<noteq> 0
             then Inl (Exited EXIT_FAILURE
                         (''Invalid log level specified '' @ [CHR 0x27]
                            @ (case optarg d of None \<Rightarrow> ''(null)'' | Some a \<Rightarrow> a)
                            @ [CHR 0x27, CHR 0x0A]),
                       ovdk_args_usage (progname st1) st1)
             else Inr st1)
      else if opt = of_char CHR ''J'' then
        (case parse_str_to_uint32t (optarg d) (max_frame_size st) of
           (rc, m) \<Rightarrow>
             if rc \<noteq> 0
             then Inl (Returned (- 1),
                       ovdk_args_usage (progname st) (st\<lparr>max_frame_size := m\<rparr>))
             else Inr (st\<lparr>max_frame_size := m\<rparr>))
      else if opt = 0 then
        (if length lgopts \<le> option_index then Inl (Fault, st)
         else if strncmp (lo_name (lgopts ! option_index)) PARAM_STATS_INTERVAL 9 = 0 then
           (case optarg d of
              None \<Rightarrow> Inl (Fault, st)
            | Some a \<Rightarrow> Inr (st\<lparr>stats_interval := atoi a\<rparr>))
         else if strncmp (lo_name (lgopts ! option_index)) PARAM_STATS_CORE 10 = 0 then
           (case optarg d of
              None \<Rightarrow> Inl (Fault, st)
            | Some a \<Rightarrow> Inr (st\<lparr>stats_core := atoi a\<rparr>))
         else Inr st)
      else
        (if optopt d \<noteq> 0
         then Inl (Exited EXIT_FAILURE
                     (''Invalid option '' @ [CHR 0x27] @ ''-'' @ [char_of (optopt d), CHR 0x27, CHR 0x0A]),
                   ovdk_args_usage (progname st) st)
         else Inl (Exited EXIT_FAILURE
                     (''Invalid option '' @ [CHR 0x27] @ ''--'' @ argv_str argv (optind d - 1)
                        @ [CHR 0x27, CHR 0x0A]),
                   ovdk_args_usage (progname st) st)))"

text \<open>
  The weight of what \<^verbatim>\<open>getopt_long\<close> has still to scan; every call that does not return
  \<^verbatim>\<open>EOF\<close> lowers it.
\<close>

definition rest_weight :: "string list \<Rightarrow> nat \<Rightarrow> nat" where
  "rest_weight argv i = sum_list (map (\<lambda>a. length a + 2) (drop i argv))"

definition scan_weight :: "string list \<Rightarrow> getopt_state \<Rightarrow> nat" where
  "scan_weight argv d =
     (if nextchar d = [] then rest_weight argv (optind d)
      else length (nextchar d) + rest_weight argv (optind d + 1))"

text \<open>
  The \<^verbatim>\<open>while\<close> loop of \<^verbatim>\<open>ovdk_args_parse_app_args\<close>: \<open>option_index\<close> is the local
  variable \<^verbatim>\<open>getopt_long\<close> stores a long option's index into.
\<close>

function parse_loop ::
  "string list \<Rightarrow> nat \<Rightarrow> getopt_state \<Rightarrow> app_config \<Rightarrow> outcome \<times> app_config" where
  "parse_loop argv option_index d st =
     (case getopt_long argv ''p:v:J:'' lgopts option_index d of
        (opt, option_index', d') \<Rightarrow>
          if opt = EOF then (Returned 0, st)
          else (case switch_opt argv opt option_index' d' st of
                  Inl res \<Rightarrow> res
                | Inr st' \<Rightarrow> parse_loop argv option_index' d' st'))"
  by pat_completeness auto

text \<open>
  \<^verbatim>\<open>ovdk_args_parse_app_args(argc, argv)\<close>, with \<open>argc = length argv\<close>: it stores
  \<^verbatim>\<open>argv[0]\<close> (\<^verbatim>\<open>NULL\<close> when \<open>argc = 0\<close>) and runs the loop. The scan starts from the
  library's initial state, and \<open>option_index\<close>, uninitialised in C and read only after
  \<^verbatim>\<open>getopt_long\<close> has stored into it, starts as 0.
\<close>

definition ovdk_args_parse_app_args :: "string list \<Rightarrow> app_config \<Rightarrow> outcome \<times> app_config" where
  "ovdk_args_parse_app_args argv st =
     parse_loop argv 0 getopt_init
       (st\<lparr>progname := (if argv = [] then None else Some (argv ! 0))\<rparr>)"

definition ovdk_args_get_portmask :: "app_config \<Rightarrow> 64 word" where
  "ovdk_args_get_portmask st = port_mask st"

definition ovdk_args_get_log_level :: "app_config \<Rightarrow> 32 word" where
  "ovdk_args_get_log_level st = log_level st"

definition ovdk_args_get_stats_interval :: "app_config \<Rightarrow> 32 word" where
  "ovdk_args_get_stats_interval st = stats_interval st"

definition ovdk_args_get_stats_core :: "app_config \<Rightarrow> 32 word" where
  "ovdk_args_get_stats_core st = stats_core st"

definition ovdk_args_get_max_frame_size :: "app_config \<Rightarrow> 32 word" where
  "ovdk_args_get_max_frame_size st = max_frame_size st"

section \<open>Notions the statements use\<close>

text \<open>The decimal numeral of a natural number, without leading zeros.\<close>

definition digit_char :: "nat \<Rightarrow> char" where
  "digit_char d = ''0123456789'' ! d"

fun dec :: "nat \<Rightarrow> string" where
  "dec n = (if n < 10 then [digit_char n] else dec (n div 10) @ [digit_char (n mod 10)])"

text \<open>
  A string that reads as a decimal number in C: white space, an optional sign, then one
  or more decimal digits and nothing else.
\<close>

definition decimal_numeral :: "string \<Rightarrow> bool" where
  "decimal_numeral s =
     (case strip_sign (dropWhile isspace s) of
        (neg, r) \<Rightarrow> r \<noteq> [] \<and> list_all (in_base 10) r)"

text \<open>
  A fatal error: the usage text is printed for the program name, then \<^verbatim>\<open>rte_exit\<close> ends
  the process with \<^verbatim>\<open>EXIT_FAILURE\<close> and the message; no variable but \<^verbatim>\<open>progname\<close> has
  changed.
\<close>

definition usage_and_exit :: "string \<Rightarrow> string \<Rightarrow> app_config \<Rightarrow> outcome \<times> app_config" where
  "usage_and_exit msg prog st =
     (Exited EXIT_FAILURE msg,
      st\<lparr>progname := Some prog, printed := printed st @ [Usage (Some prog)]\<rparr>)"

text \<open>
  The options \<^verbatim>\<open>getopt_long\<close> delivers for \<open>argv\<close> when it is called until it returns
  \<^verbatim>\<open>EOF\<close>: for each call the value returned, the index stored and the state left.
\<close>

function getopt_events ::
  "string list \<Rightarrow> nat \<Rightarrow> getopt_state \<Rightarrow> (int \<times> nat \<times> getopt_state) list" where
  "getopt_events argv li d =
     (case getopt_long argv ''p:v:J:'' lgopts li d of
        (opt, li', d') \<Rightarrow>
          if opt = EOF then [] else (opt, li', d') # getopt_events argv li' d')"
  by pat_completeness auto

text \<open>
  The configurations the loop of \<^verbatim>\<open>ovdk_args_parse_app_args\<close> passes through: the one
  at the start of each iteration, and the one it leaves the function with.
\<close>

function loop_states ::
  "string list \<Rightarrow> nat \<Rightarrow> getopt_state \<Rightarrow> app_config \<Rightarrow> app_config list" where
  "loop_states argv option_index d st =
     st # (case getopt_long argv ''p:v:J:'' lgopts option_index d of
             (opt, option_index', d') \<Rightarrow>
               if opt = EOF then []
               else (case switch_opt argv opt option_index' d' st of
                       Inl res \<Rightarrow> [snd res]
                     | Inr st' \<Rightarrow> loop_states argv option_index' d' st'))"
  by pat_completeness auto

text \<open>The argument of an option, as a string.\<close>

definition arg_of :: "getopt_state \<Rightarrow> string" where
  "arg_of d = (case optarg d of None \<Rightarrow> [] | Some a \<Rightarrow> a)"

text \<open>
  The arguments that pass validation, in the words of the specification: a port mask
  is not empty and is parsed to its end in base 16; a log level is not empty, is parsed to
  its end in base 10, and is neither zero nor above the highest level; a frame size is
  not empty, is parsed to its end in base 10 and is not zero.
\<close>

definition valid_portmask :: "string \<Rightarrow> bool" where
  "valid_portmask a = (a \<noteq> [] \<and> snd (strtoul a 16) = [])"

definition valid_log_level :: "string \<Rightarrow> bool" where
  "valid_log_level a =
     (a \<noteq> [] \<and> snd (strtoul a 10) = [] \<and> fst (strtoul a 10) \<noteq> 0 \<and> fst (strtoul a 10) \<le> 8)"

definition valid_frame_size :: "string \<Rightarrow> bool" where
  "valid_frame_size a = (a \<noteq> [] \<and> snd (strtoul a 10) = [] \<and> fst (strtoul a 10) \<noteq> 0)"

text \<open>
  An option the parser goes on after: a short option whose argument passes its
  validation, or a long option. Every other value \<^verbatim>\<open>getopt_long\<close> returns is refused.
\<close>

definition accepted :: "int \<times> nat \<times> getopt_state \<Rightarrow> bool" where
  "accepted e =
     (case e of
        (opt, li, d) \<Rightarrow>
          if opt = of_char CHR ''p'' then valid_portmask (arg_of d)
          else if opt = of_char CHR ''v'' then valid_log_level (arg_of d)
          else if opt = of_char CHR ''J'' then valid_frame_size (arg_of d)
          else opt = 0)"

text \<open>
  What the parser writes for an accepted option: one variable, with the whole converted
  value of the argument.
\<close>

definition option_effect :: "int \<times> nat \<times> getopt_state \<Rightarrow> app_config \<Rightarrow> app_config" where
  "option_effect e st =
     (case e of
        (opt, li, d) \<Rightarrow>
          if opt = of_char CHR ''p'' then st\<lparr>port_mask := fst (strtoul (arg_of d) 16)\<rparr>
          else if opt = of_char CHR ''v'' then st\<lparr>log_level := ucast (fst (strtoul (arg_of d) 10))\<rparr>
          else if opt = of_char CHR ''J''
            then st\<lparr>max_frame_size := ucast (fst (strtoul (arg_of d) 10))\<rparr>
          else if li = 0 then st\<lparr>stats_interval := atoi (arg_of d)\<rparr>
          else st\<lparr>stats_core := atoi (arg_of d)\<rparr>)"

text \<open>The process was ended by \<^verbatim>\<open>rte_exit\<close> with \<^verbatim>\<open>EXIT_FAILURE\<close>.\<close>

definition terminated :: "outcome \<Rightarrow> bool" where
  "terminated out = (case out of Exited c m \<Rightarrow> c = EXIT_FAILURE | _ \<Rightarrow> False)"

section \<open>Termination of the loop\<close>

lemma rest_weight_mono: "i \<le> j \<Longrightarrow> rest_weight argv j \<le> rest_weight argv i"
proof (induction argv arbitrary: i j)
  case Nil
  then show ?case by (simp add: rest_weight_def)
next
  case (Cons a argv)
  show ?case
  proof (cases i)
    case 0
    have "rest_weight (a # argv) j \<le> rest_weight (a # argv) 0"
    proof (cases j)
      case 0
      then show ?thesis by simp
    next
      case (Suc j')
      have "rest_weight argv j' \<le> rest_weight argv 0"
        using Cons.IH[of 0 j'] by simp
      then show ?thesis
        using Suc by (simp add: rest_weight_def)
    qed
    then show ?thesis
      using 0 by simp
  next
    case (Suc i')
    then obtain j' where j: "j = Suc j'" "i' \<le> j'"
      using Cons.prems by (cases j) auto
    then show ?thesis
      using Cons.IH[of i' j'] Suc by (simp add: rest_weight_def)
  qed
qed

lemma rest_weight_Suc:
  "i < length argv \<Longrightarrow> rest_weight argv i = length (argv ! i) + 2 + rest_weight argv (Suc i)"
  by (simp add: rest_weight_def flip: Cons_nth_drop_Suc)

lemma skip_nonoptions_ge: "i \<le> skip_nonoptions argv i"
  by (simp add: skip_nonoptions_def)

lemma skip_nonoptions_stop:
  assumes "skip_nonoptions argv i < length argv"
  shows "\<not> NONOPTION_P (argv ! skip_nonoptions argv i)"
proof -
  let ?xs = "drop i argv"
  have "length (takeWhile NONOPTION_P ?xs) < length ?xs"
    using assms by (simp add: skip_nonoptions_def)
  then have "\<not> NONOPTION_P (?xs ! length (takeWhile NONOPTION_P ?xs))"
    by (rule nth_length_takeWhile)
  moreover have "?xs ! length (takeWhile NONOPTION_P ?xs) = argv ! skip_nonoptions argv i"
    using assms by (simp add: skip_nonoptions_def)
  ultimately show ?thesis by simp
qed

lemma process_long_option_state:
  "process_long_option argv os lo li d = (opt, li', d') \<Longrightarrow>
     nextchar d' = [] \<and> optind d < optind d'"
  by (auto simp: process_long_option_def Let_def split: long_match.splits if_splits)

lemma getopt_short_state:
  "getopt_short argv os li d = (opt, li', d') \<Longrightarrow> nextchar d = c # nc \<Longrightarrow>
     (nextchar d' = nc \<and> nc \<noteq> [] \<and> optind d' = optind d)
     \<or> (nextchar d' = [] \<and> optind d < optind d')"
  by (auto simp: getopt_short_def Let_def split: if_splits)

lemma getopt_long_progress:
  assumes "getopt_long argv os lo li d = (opt, li', d')" "opt \<noteq> EOF"
  shows "scan_weight argv d' < scan_weight argv d"
proof (cases "nextchar d")
  case Nil
  let ?i = "skip_nonoptions argv (optind d)"
  from assms Nil have lt: "?i < length argv"
    by (auto simp: getopt_long_def Let_def split: if_splits)
  have "\<not> NONOPTION_P (argv ! ?i)"
    using lt by (rule skip_nonoptions_stop)
  then obtain c0 c1 r where el: "argv ! ?i = c0 # c1 # r"
    by (auto simp: NONOPTION_P_def split: list.splits)
  have w: "length (argv ! ?i) + 2 + rest_weight argv (Suc ?i) \<le> scan_weight argv d"
    using Nil rest_weight_Suc[OF lt] rest_weight_mono[of "optind d" ?i argv]
      skip_nonoptions_ge[of "optind d" argv]
    by (simp add: scan_weight_def)
  consider
    (long) "process_long_option argv os lo li
              (d\<lparr>optarg := None, optind := ?i, nextchar := drop 2 (argv ! ?i)\<rparr>) = (opt, li', d')"
  | (short) "getopt_short argv os li
              (d\<lparr>optarg := None, optind := ?i, nextchar := drop 1 (argv ! ?i)\<rparr>) = (opt, li', d')"
    using assms Nil lt by (auto simp: getopt_long_def Let_def split: if_splits)
  then show ?thesis
  proof cases
    case long
    from process_long_option_state[OF long]
    have "nextchar d' = []" "Suc ?i \<le> optind d'"
      by auto
    then have "scan_weight argv d' \<le> rest_weight argv (Suc ?i)"
      using rest_weight_mono by (simp add: scan_weight_def)
    then show ?thesis
      using w by simp
  next
    case short
    from getopt_short_state[OF short, of c1 r] el
    have "(nextchar d' = r \<and> r \<noteq> [] \<and> optind d' = ?i) \<or> (nextchar d' = [] \<and> ?i < optind d')"
      by simp
    then have "scan_weight argv d' \<le> length r + rest_weight argv (Suc ?i)"
      using rest_weight_mono[of "Suc ?i" "optind d'" argv] by (auto simp: scan_weight_def)
    then show ?thesis
      using w el by simp
  qed
next
  case (Cons c nc)
  then have short: "getopt_short argv os li (d\<lparr>optarg := None\<rparr>) = (opt, li', d')"
    using assms by (auto simp: getopt_long_def Let_def split: if_splits)
  from getopt_short_state[OF short, of c nc] Cons
  have "(nextchar d' = nc \<and> nc \<noteq> [] \<and> optind d' = optind d)
        \<or> (nextchar d' = [] \<and> optind d < optind d')"
    by simp
  then have "scan_weight argv d' \<le> length nc + rest_weight argv (Suc (optind d))"
    using rest_weight_mono[of "Suc (optind d)" "optind d'" argv] by (auto simp: scan_weight_def)
  then show ?thesis
    using Cons by (simp add: scan_weight_def)
qed

termination parse_loop
proof (relation "measure (\<lambda>(argv, oi, d, st). scan_weight argv d)")
  show "wf (measure (\<lambda>(argv, oi, d, st). scan_weight argv d))"
    by simp
next
  fix argv option_index d and st :: app_config and x y xa ya and b :: app_config
  assume "(x, y) = getopt_long argv ''p:v:J:'' lgopts option_index d"
    and "(xa, ya) = y" and "x \<noteq> EOF"
  then have "getopt_long argv ''p:v:J:'' lgopts option_index d = (x, xa, ya)"
    by metis
  then have "scan_weight argv ya < scan_weight argv d"
    using \<open>x \<noteq> EOF\<close> by (rule getopt_long_progress)
  then show "((argv, xa, ya, b), (argv, option_index, d, st))
      \<in> measure (\<lambda>(argv, oi, d, st). scan_weight argv d)"
    by simp
qed

termination getopt_events
proof (relation "measure (\<lambda>(argv, li, d). scan_weight argv d)")
  show "wf (measure (\<lambda>(argv, li, d). scan_weight argv d))"
    by simp
next
  fix argv li d x y xa ya
  assume "(x, y) = getopt_long argv ''p:v:J:'' lgopts li d"
    and "(xa, ya) = y" and "x \<noteq> EOF"
  then have "getopt_long argv ''p:v:J:'' lgopts li d = (x, xa, ya)"
    by metis
  then have "scan_weight argv ya < scan_weight argv d"
    using \<open>x \<noteq> EOF\<close> by (rule getopt_long_progress)
  then show "((argv, xa, ya), (argv, li, d)) \<in> measure (\<lambda>(argv, li, d). scan_weight argv d)"
    by simp
qed

termination loop_states
proof (relation "measure (\<lambda>(argv, oi, d, st). scan_weight argv d)")
  show "wf (measure (\<lambda>(argv, oi, d, st). scan_weight argv d))"
    by simp
next
  fix argv option_index d and st :: app_config and x y xa ya and b :: app_config
  assume "(x, y) = getopt_long argv ''p:v:J:'' lgopts option_index d"
    and "(xa, ya) = y" and "x \<noteq> EOF"
  then have "getopt_long argv ''p:v:J:'' lgopts option_index d = (x, xa, ya)"
    by metis
  then have "scan_weight argv ya < scan_weight argv d"
    using \<open>x \<noteq> EOF\<close> by (rule getopt_long_progress)
  then show "((argv, xa, ya, b), (argv, option_index, d, st))
      \<in> measure (\<lambda>(argv, oi, d, st). scan_weight argv d)"
    by simp
qed

declare getopt_events.simps [simp del] loop_states.simps [simp del]

section \<open>Scanning numbers\<close>

declare dec.simps [simp del]

lemma in_base_not_space: "in_base b c \<Longrightarrow> \<not> isspace c"
  by (auto simp: in_base_def digit_of_def isspace_def Let_def split: if_splits)

lemma in_base_not_sign: "in_base b c \<Longrightarrow> c \<noteq> CHR ''-'' \<and> c \<noteq> CHR ''+''"
  by (auto simp: in_base_def digit_of_def Let_def split: if_splits)

lemma in_base16_not_x: "in_base 16 c \<Longrightarrow> c \<noteq> CHR ''x'' \<and> c \<noteq> CHR ''X''"
  by (auto simp: in_base_def digit_of_def Let_def split: if_splits)

lemma in_base10_not_x: "in_base 10 c \<Longrightarrow> c \<noteq> CHR ''x'' \<and> c \<noteq> CHR ''X''"
  by (auto simp: in_base_def digit_of_def Let_def split: if_splits)

lemma strip_sign_digit: "in_base b c \<Longrightarrow> strip_sign (c # r) = (False, c # r)"
  using in_base_not_sign[of b c] by (simp add: strip_sign_def)

lemma strip_0x_digits: "list_all (in_base b) ds \<Longrightarrow> strip_0x b ds = ds"
  by (auto simp: strip_0x_def in_base_def digit_of_def split: list.splits)

lemma strip_0x_10: "strip_0x 10 s = s"
  by (auto simp: strip_0x_def split: list.splits)

lemma takeWhile_all: "list_all P xs \<Longrightarrow> takeWhile P xs = xs"
  by (simp add: list_all_iff)

lemma dropWhile_all: "list_all P xs \<Longrightarrow> dropWhile P xs = []"
  by (simp add: list_all_iff)

lemma takeWhile_stop: "list_all P xs \<Longrightarrow> \<not> P c \<Longrightarrow> takeWhile P (xs @ c # r) = xs"
  by (induction xs) auto

lemma dropWhile_stop: "list_all P xs \<Longrightarrow> \<not> P c \<Longrightarrow> dropWhile P (xs @ c # r) = c # r"
  by (induction xs) auto

lemma dropWhile_skip: "list_all P xs \<Longrightarrow> dropWhile P (xs @ ys) = dropWhile P ys"
  by (induction xs) auto

lemma scan_number_digits:
  assumes "ds \<noteq> []" "list_all (in_base b) ds"
  shows "scan_number b ds = Some (False, digits_value b ds, [])"
proof -
  obtain c r where ds: "ds = c # r" using assms(1) by (cases ds) auto
  then have c: "in_base b c" using assms(2) by simp
  have "dropWhile isspace ds = ds" using ds in_base_not_space[OF c] by simp
  moreover have "strip_sign ds = (False, ds)" using ds strip_sign_digit[OF c] by simp
  ultimately show ?thesis
    using assms by (simp add: scan_number_def strip_0x_digits takeWhile_all dropWhile_all)
qed

lemma scan_number_trailing:
  assumes "ds \<noteq> []" "list_all (in_base b) ds" "\<not> in_base b c" "c \<noteq> CHR ''x''" "c \<noteq> CHR ''X''"
  shows "scan_number b (ds @ c # r) = Some (False, digits_value b ds, c # r)"
proof -
  obtain c0 r0 where ds: "ds = c0 # r0" using assms(1) by (cases ds) auto
  then have c: "in_base b c0" and r0: "list_all (in_base b) r0" using assms(2) by simp_all
  have "dropWhile isspace (ds @ c # r) = ds @ c # r" using ds in_base_not_space[OF c] by simp
  moreover have "strip_sign (ds @ c # r) = (False, ds @ c # r)" using ds strip_sign_digit[OF c] by simp
  moreover have "strip_0x b (ds @ c # r) = ds @ c # r"
  proof (cases r0)
    case Nil
    then show ?thesis using ds assms(4,5) by (auto simp: strip_0x_def split: list.splits)
  next
    case (Cons c1 r1)
    then have "in_base b c1" using r0 by simp
    then show ?thesis using ds Cons in_base16_not_x[of c1] by (auto simp: strip_0x_def split: list.splits)
  qed
  ultimately show ?thesis
    using assms by (simp add: scan_number_def takeWhile_stop dropWhile_stop)
qed

lemma scan_number_trailing10:
  assumes "ds \<noteq> []" "list_all (in_base 10) ds" "\<not> in_base 10 c"
  shows "scan_number 10 (ds @ c # r) = Some (False, digits_value 10 ds, c # r)"
proof -
  obtain c0 r0 where ds: "ds = c0 # r0" using assms(1) by (cases ds) auto
  then have c: "in_base 10 c0" using assms(2) by simp
  have "dropWhile isspace (ds @ c # r) = ds @ c # r" using ds in_base_not_space[OF c] by simp
  moreover have "strip_sign (ds @ c # r) = (False, ds @ c # r)" using ds strip_sign_digit[OF c] by simp
  ultimately show ?thesis
    using assms by (simp add: scan_number_def takeWhile_stop dropWhile_stop strip_0x_10)
qed

lemma digit_cases:
  assumes "d < 10"
  shows "d = 0 \<or> d = 1 \<or> d = 2 \<or> d = 3 \<or> d = 4 \<or> d = 5 \<or> d = 6 \<or> d = 7 \<or> d = 8 \<or> d = (9::nat)"
  using assms by arith

lemma digit_val_char_of: "d < 10 \<Longrightarrow> digit_val (digit_char d) = int d"
  by (drule digit_cases) (auto simp: digit_val_def digit_of_def digit_char_def)

lemma in_base_char_of: "d < 10 \<Longrightarrow> in_base 10 (digit_char d)"
  by (drule digit_cases) (auto simp: in_base_def digit_of_def digit_char_def)

lemma digits_value_snoc: "digits_value b (ds @ [c]) = digits_value b ds * b + digit_val c"
  by (simp add: digits_value_def)

lemma dec_nonempty: "dec n \<noteq> []"
  by (subst dec.simps) simp

lemma dec_digits: "list_all (in_base 10) (dec n)"
  by (induction n rule: dec.induct) (subst dec.simps, simp add: in_base_char_of)

lemma dec_value: "digits_value 10 (dec n) = int n"
proof (induction n rule: dec.induct)
  case (1 n)
  show ?case
  proof (cases "n < 10")
    case True
    then show ?thesis by (subst dec.simps) (simp add: digits_value_def digit_val_char_of)
  next
    case False
    then have "digits_value 10 (dec (n div 10)) = int (n div 10)" using 1 by simp
    then show ?thesis using False
      by (subst dec.simps) (simp add: digits_value_snoc digit_val_char_of zdiv_int zmod_int)
  qed
qed

lemma digits_value_nonneg: "0 \<le> b \<Longrightarrow> 0 \<le> digits_value b ds"
proof (induction ds rule: rev_induct)
  case Nil then show ?case by (simp add: digits_value_def)
next
  case (snoc c ds)
  have "0 \<le> digit_val c" by (simp add: digit_val_def digit_of_def Let_def)
  then show ?case using snoc by (simp add: digits_value_snoc)
qed

section \<open>One option on the command line\<close>

lemmas getopt_defs = getopt_long_def getopt_short_def process_long_option_def find_long_def
  skip_nonoptions_def NONOPTION_P_def missing_arg_code_def lgopts_def getopt_init_def EOF_def
  PARAM_STATS_INTERVAL_def PARAM_STATS_CORE_def required_argument_def Let_def

declare parse_loop.simps [simp del]

lemma parse_loop_end:
  "argv \<noteq> [] \<Longrightarrow> nextchar d = [] \<Longrightarrow> length argv \<le> optind d \<Longrightarrow>
     parse_loop argv li d st = (Returned 0, st)"
  by (subst parse_loop.simps) (simp add: getopt_long_def skip_nonoptions_def Let_def)

lemma char_of_112: "char_of (112 :: int) = CHR ''p''"
  using char_of_char[of "CHR ''p''", where ?'a = int] by simp

lemma parse_J:
  "ovdk_args_parse_app_args [prog, ''-J'', s] st =
     (case parse_str_to_uint32t (Some s) (max_frame_size st) of
        (rc, m) \<Rightarrow>
          if rc \<noteq> 0
          then (Returned (- 1),
                st\<lparr>progname := Some prog, max_frame_size := m,
                   printed := printed st @ [Usage (Some prog)]\<rparr>)
          else (Returned 0, st\<lparr>progname := Some prog, max_frame_size := m\<rparr>))"
  unfolding ovdk_args_parse_app_args_def
  by (subst parse_loop.simps)
     (simp add: getopt_defs switch_opt_def ovdk_args_usage_def parse_loop_end split: prod.splits)

lemma parse_p:
  "ovdk_args_parse_app_args [prog, ''-p'', s] st =
     (case parse_portmask s (st\<lparr>progname := Some prog\<rparr>) of
        (rc, st1) \<Rightarrow>
          if rc \<noteq> 0
          then (Exited EXIT_FAILURE (''Invalid option specified '' @ [CHR 0x27] @ ''p'' @ [CHR 0x27, CHR 0x0A]),
                st1\<lparr>printed := printed st1 @ [Usage (progname st1)]\<rparr>)
          else (Returned 0, st1))"
  unfolding ovdk_args_parse_app_args_def
  by (subst parse_loop.simps)
     (simp add: getopt_defs switch_opt_def ovdk_args_usage_def parse_loop_end char_of_112
        split: prod.splits)

lemma parse_v:
  "ovdk_args_parse_app_args [prog, ''-v'', s] st =
     (case parse_log_level (Some s) (st\<lparr>progname := Some prog\<rparr>) of
        (rc, st1) \<Rightarrow>
          if rc \<noteq> 0
          then (Exited EXIT_FAILURE (''Invalid log level specified '' @ [CHR 0x27] @ s @ [CHR 0x27, CHR 0x0A]),
                st1\<lparr>printed := printed st1 @ [Usage (progname st1)]\<rparr>)
          else (Returned 0, st1))"
  unfolding ovdk_args_parse_app_args_def
  by (subst parse_loop.simps)
     (simp add: getopt_defs switch_opt_def ovdk_args_usage_def parse_loop_end split: prod.splits)

lemma parse_stats_int:
  "ovdk_args_parse_app_args [prog, ''--stats_int'', s] st =
     (Returned 0, st\<lparr>progname := Some prog, stats_interval := atoi s\<rparr>)"
  unfolding ovdk_args_parse_app_args_def
  by (subst parse_loop.simps)
     (simp add: getopt_defs switch_opt_def strncmp_def parse_loop_end)

lemma parse_stats_core:
  "ovdk_args_parse_app_args [prog, ''--stats_core'', s] st =
     (Returned 0, st\<lparr>progname := Some prog, stats_core := atoi s\<rparr>)"
  unfolding ovdk_args_parse_app_args_def
  by (subst parse_loop.simps)
     (simp add: getopt_defs switch_opt_def strncmp_def parse_loop_end)

lemma ucast_64_32: "(ucast (word_of_int k :: 64 word) :: 32 word) = word_of_int k"
  by (rule bit_word_eqI) (simp add: bit_simps)

lemma ucast_64_32_nat: "(ucast (of_nat n :: 64 word) :: 32 word) = of_nat n"
  by (rule bit_word_eqI) (simp add: bit_simps)

lemma strtoul_digits:
  assumes "ds \<noteq> []" "list_all (in_base b) ds"
  shows "strtoul ds b =
     (if ULONG_MAX < digits_value b ds then word_of_int ULONG_MAX
      else word_of_int (digits_value b ds), [])"
  by (simp add: strtoul_def scan_number_digits[OF assms])

lemma strtoul_dec:
  "strtoul (dec n) 10 = (if ULONG_MAX < int n then word_of_int ULONG_MAX else word_of_int (int n), [])"
  by (simp add: strtoul_digits dec_nonempty dec_digits dec_value)

lemma word64_of_int_eq_0: "0 < k \<Longrightarrow> k < 2 ^ 64 \<Longrightarrow> (word_of_int k :: 64 word) \<noteq> 0"
  by (simp add: word_of_int_eq_0_iff zdvd_not_zless)

lemma uint_word64: "0 \<le> k \<Longrightarrow> k < 2 ^ 64 \<Longrightarrow> uint (word_of_int k :: 64 word) = k"
  by (simp add: uint_word_of_int take_bit_eq_mod)

lemma strtoul10_not_numeral:
  assumes "s \<noteq> []" "\<not> decimal_numeral s"
  shows "snd (strtoul s 10) \<noteq> []"
proof -
  obtain neg s2 where ss: "strip_sign (dropWhile isspace s) = (neg, s2)"
    by (cases "strip_sign (dropWhile isspace s)") auto
  show ?thesis
  proof (cases "takeWhile (in_base 10) s2 = []")
    case True
    then show ?thesis
      using assms(1) ss by (simp add: strtoul_def scan_number_def strip_0x_10)
  next
    case False
    then have "s2 \<noteq> []" by auto
    then have "\<not> list_all (in_base 10) s2"
      using assms(2) ss by (simp add: decimal_numeral_def)
    then have "dropWhile (in_base 10) s2 \<noteq> []"
      by (simp add: list_all_iff dropWhile_eq_Nil_conv)
    then show ?thesis
      using False ss by (simp add: strtoul_def scan_number_def strip_0x_10)
  qed
qed

lemma parse_str_to_uint32t_reject:
  assumes "s = [] \<or> \<not> decimal_numeral s \<or> (list_all (in_base 10) s \<and> digits_value 10 s = 0)"
  shows "parse_str_to_uint32t (Some s) num = (- 1, num)"
proof (cases "s = []")
  case True
  then show ?thesis by (simp add: parse_str_to_uint32t_def)
next
  case False
  show ?thesis
  proof (cases "decimal_numeral s")
    case False
    with \<open>s \<noteq> []\<close> have "snd (strtoul s 10) \<noteq> []" by (rule strtoul10_not_numeral)
    then obtain temp endp where "strtoul s 10 = (temp, endp)" "endp \<noteq> []"
      by (cases "strtoul s 10") auto
    then show ?thesis using \<open>s \<noteq> []\<close>
      by (simp add: parse_str_to_uint32t_def)
  next
    case True
    with assms \<open>s \<noteq> []\<close> have "list_all (in_base 10) s" "digits_value 10 s = 0" by auto
    then show ?thesis using \<open>s \<noteq> []\<close>
      by (simp add: parse_str_to_uint32t_def strtoul_digits ULONG_MAX_def)
  qed
qed

lemma parse_str_to_uint32t_dec:
  assumes "0 < n" "n < 2 ^ 64"
  shows "parse_str_to_uint32t (Some (dec n)) num = (0, of_nat n)"
proof -
  have lt: "int n < 2 ^ 64"
    using assms(2) by (metis of_nat_less_iff of_nat_numeral of_nat_power)
  have "0 < int n"
    using assms(1) by simp
  then have "(word_of_int (int n) :: 64 word) \<noteq> 0"
    using lt by (rule word64_of_int_eq_0)
  moreover have "\<not> ULONG_MAX < int n"
    using lt by (simp add: ULONG_MAX_def)
  ultimately show ?thesis
    by (simp add: parse_str_to_uint32t_def dec_nonempty strtoul_dec ucast_64_32_nat)
qed

section \<open>The frame size option\<close>

text \<open>
  C1, as amended. For every \<open>n\<close> with \<open>0 < n < 2\<^sup>3\<^sup>2\<close>, parsing \<^verbatim>\<open>-J\<close> with the decimal
  numeral of \<open>n\<close> returns 0 and sets \<^verbatim>\<open>max_frame_size\<close> to \<open>n\<close>. For the empty string, for
  a string that is not a decimal number (white space, optional sign, digits) and for a
  digit string denoting 0, parsing prints the usage text and returns \<open>-1\<close> (the process is
  not ended) and \<^verbatim>\<open>max_frame_size\<close>, like every other variable, keeps its value.
\<close>

theorem frame_size_option:
  "(0 < n \<and> n < 2 ^ 32 \<longrightarrow>
      ovdk_args_parse_app_args [prog, ''-J'', dec n] st =
        (Returned 0, st\<lparr>progname := Some prog, max_frame_size := of_nat n\<rparr>)
      \<and> unat (ovdk_args_get_max_frame_size
               (snd (ovdk_args_parse_app_args [prog, ''-J'', dec n] st))) = n)
   \<and> (s = [] \<or> \<not> decimal_numeral s \<or> (list_all (in_base 10) s \<and> digits_value 10 s = 0) \<longrightarrow>
      ovdk_args_parse_app_args [prog, ''-J'', s] st =
        (Returned (- 1),
         st\<lparr>progname := Some prog, printed := printed st @ [Usage (Some prog)]\<rparr>))"
proof (intro conjI impI)
  assume n: "0 < n \<and> n < 2 ^ 32"
  have "(2::nat) ^ 32 < 2 ^ 64"
    by simp
  with n have "n < 2 ^ 64"
    by (metis less_trans)
  then show ok: "ovdk_args_parse_app_args [prog, ''-J'', dec n] st =
        (Returned 0, st\<lparr>progname := Some prog, max_frame_size := of_nat n\<rparr>)"
    using n by (simp add: parse_J parse_str_to_uint32t_dec)
  show "unat (ovdk_args_get_max_frame_size
               (snd (ovdk_args_parse_app_args [prog, ''-J'', dec n] st))) = n"
    using n by (simp add: ok ovdk_args_get_max_frame_size_def unat_of_nat)
next
  assume "s = [] \<or> \<not> decimal_numeral s \<or> (list_all (in_base 10) s \<and> digits_value 10 s = 0)"
  then show "ovdk_args_parse_app_args [prog, ''-J'', s] st =
        (Returned (- 1),
         st\<lparr>progname := Some prog, printed := printed st @ [Usage (Some prog)]\<rparr>)"
    by (simp add: parse_J parse_str_to_uint32t_reject)
qed

theorem frame_size_option_witness:
  "ovdk_args_parse_app_args [''ovdk'', ''-J'', ''1518''] (initial_config 64) =
     (Returned 0, (initial_config 64)\<lparr>progname := Some ''ovdk'', max_frame_size := 1518\<rparr>)
   \<and> ovdk_args_parse_app_args [''ovdk'', ''-J'', ''15x''] (initial_config 64) =
     (Returned (- 1),
      (initial_config 64)\<lparr>progname := Some ''ovdk'', printed := [Usage (Some ''ovdk'')]\<rparr>)"
proof -
  have d: "dec 1518 = ''1518''"
    by (simp add: dec.simps digit_char_def)
  have n: "\<not> decimal_numeral ''15x''"
    by (simp add: decimal_numeral_def strip_sign_def isspace_def in_base_def digit_of_def)
  show ?thesis
    using frame_size_option[of 1518 "''ovdk''" "initial_config 64" "''15x''"] d n
    by (simp add: initial_config_def)
qed

text \<open>
  The claim as it stands promises \<open>n\<close> for every \<open>n > 0\<close>. The variable has 32 bits:
  for \<open>n = 2\<^sup>3\<^sup>2 + 1\<close> parsing succeeds and \<^verbatim>\<open>max_frame_size\<close> is 1.
\<close>

theorem frame_size_option_counterexample:
  "dec 4294967297 = ''4294967297''
   \<and> fst (ovdk_args_parse_app_args [''ovdk'', ''-J'', ''4294967297''] (initial_config 64))
       = Returned 0
   \<and> unat (ovdk_args_get_max_frame_size
             (snd (ovdk_args_parse_app_args [''ovdk'', ''-J'', ''4294967297'']
                     (initial_config 64)))) = 1"
proof -
  have d: "dec 4294967297 = ''4294967297''"
    by (simp add: dec.simps digit_char_def)
  have "parse_str_to_uint32t (Some (dec 4294967297)) num = (0, of_nat 4294967297)" for num
    by (rule parse_str_to_uint32t_dec) simp_all
  then have "parse_str_to_uint32t (Some ''4294967297'') num = (0, 1)" for num
    by (simp add: d)
  then show ?thesis
    using d by (simp add: parse_J ovdk_args_get_max_frame_size_def)
qed

text \<open>
  C9. The zero test of \<^verbatim>\<open>parse_str_to_uint32t\<close> looks at the \<^verbatim>\<open>unsigned long\<close>, and the
  cast to \<^verbatim>\<open>uint32_t\<close> that follows is unchecked: for every \<open>v\<close> with \<open>0 < v < 2\<^sup>6\<^sup>4\<close> the
  option is accepted and \<^verbatim>\<open>max_frame_size\<close> becomes \<open>v mod 2\<^sup>3\<^sup>2\<close>. So \<^verbatim>\<open>4294967296\<close> is
  accepted and stores 0, while \<^verbatim>\<open>0\<close> is rejected.
\<close>

theorem frame_size_truncates:
  "(0 < v \<and> v < 2 ^ 64 \<longrightarrow>
      ovdk_args_parse_app_args [prog, ''-J'', dec v] st =
        (Returned 0, st\<lparr>progname := Some prog, max_frame_size := of_nat v\<rparr>)
      \<and> unat (ovdk_args_get_max_frame_size
               (snd (ovdk_args_parse_app_args [prog, ''-J'', dec v] st))) = v mod 2 ^ 32)
   \<and> dec 4294967296 = ''4294967296''
   \<and> ovdk_args_parse_app_args [prog, ''-J'', ''4294967296''] st =
        (Returned 0, st\<lparr>progname := Some prog, max_frame_size := 0\<rparr>)
   \<and> ovdk_args_parse_app_args [prog, ''-J'', ''0''] st =
        (Returned (- 1),
         st\<lparr>progname := Some prog, printed := printed st @ [Usage (Some prog)]\<rparr>)"
proof (intro conjI impI)
  assume v: "0 < v \<and> v < 2 ^ 64"
  then show ok: "ovdk_args_parse_app_args [prog, ''-J'', dec v] st =
        (Returned 0, st\<lparr>progname := Some prog, max_frame_size := of_nat v\<rparr>)"
    by (simp add: parse_J parse_str_to_uint32t_dec)
  show "unat (ovdk_args_get_max_frame_size
               (snd (ovdk_args_parse_app_args [prog, ''-J'', dec v] st))) = v mod 2 ^ 32"
    by (simp add: ok ovdk_args_get_max_frame_size_def unat_of_nat)
next
  show d: "dec 4294967296 = ''4294967296''"
    by (simp add: dec.simps digit_char_def)
  have "ovdk_args_parse_app_args [prog, ''-J'', dec 4294967296] st =
        (Returned 0, st\<lparr>progname := Some prog, max_frame_size := of_nat 4294967296\<rparr>)"
    by (simp add: parse_J parse_str_to_uint32t_dec)
  then show "ovdk_args_parse_app_args [prog, ''-J'', ''4294967296''] st =
        (Returned 0, st\<lparr>progname := Some prog, max_frame_size := 0\<rparr>)"
    by (simp add: d)
next
  have "list_all (in_base 10) ''0'' \<and> digits_value 10 ''0'' = 0"
    by (simp add: in_base_def digit_of_def digits_value_def digit_val_def)
  then show "ovdk_args_parse_app_args [prog, ''-J'', ''0''] st =
        (Returned (- 1),
         st\<lparr>progname := Some prog, printed := printed st @ [Usage (Some prog)]\<rparr>)"
    by (simp add: parse_J parse_str_to_uint32t_reject)
qed

theorem frame_size_truncates_witness:
  "dec 4294967301 = ''4294967301''
   \<and> unat (ovdk_args_get_max_frame_size
             (snd (ovdk_args_parse_app_args [''ovdk'', ''-J'', ''4294967301'']
                     (initial_config 64)))) = 5"
proof -
  have d: "dec 4294967301 = ''4294967301''"
    by (simp add: dec.simps digit_char_def)
  have "0 < (4294967301::nat) \<and> (4294967301::nat) < 2 ^ 64"
    by simp
  with frame_size_truncates[of 4294967301 "''ovdk''" "initial_config 64"]
  have "unat (ovdk_args_get_max_frame_size
                (snd (ovdk_args_parse_app_args [''ovdk'', ''-J'', dec 4294967301]
                        (initial_config 64)))) = 4294967301 mod 2 ^ 32"
    by blast
  then show ?thesis
    using d by simp
qed

section \<open>The log level option\<close>

lemma unat_word64: "n < 2 ^ 64 \<Longrightarrow> unat (of_nat n :: 64 word) = n"
  by (simp add: unat_of_nat)

lemma int_lt_2_64: "n < 2 ^ 64 \<Longrightarrow> int n < 2 ^ 64"
  by (metis of_nat_less_iff of_nat_numeral of_nat_power)

lemma trailing_not_numeral:
  assumes "ds \<noteq> []" "list_all (in_base 10) ds" "\<not> in_base 10 c"
  shows "\<not> decimal_numeral (ds @ c # r)"
proof -
  obtain c0 r0 where ds: "ds = c0 # r0" using assms(1) by (cases ds) auto
  then have c: "in_base 10 c0" using assms(2) by simp
  have "dropWhile isspace (ds @ c # r) = ds @ c # r"
    using ds in_base_not_space[OF c] by simp
  moreover have "strip_sign (ds @ c # r) = (False, ds @ c # r)"
    using ds strip_sign_digit[OF c] by simp
  ultimately show ?thesis
    using assms(3) by (simp add: decimal_numeral_def)
qed

lemma parse_log_level_accept:
  assumes "1 \<le> n" "n \<le> 8"
  shows "parse_log_level (Some (dec n)) st = (0, st\<lparr>log_level := of_nat n\<rparr>)"
proof -
  have n64: "n < 2 ^ 64"
    using assms(2) by (rule le_less_trans) simp
  have "\<not> ULONG_MAX < int n"
    using int_lt_2_64[OF n64] by (simp add: ULONG_MAX_def)
  then have s: "strtoul (dec n) 10 = (of_nat n, [])"
    by (simp add: strtoul_dec)
  have "unat (of_nat n :: 64 word) = n"
    using n64 by (rule unat_word64)
  then have "(of_nat n :: 64 word) \<noteq> 0" "\<not> 8 < (of_nat n :: 64 word)"
    using assms by (auto simp: word_less_nat_alt)
  then show ?thesis
    by (simp add: parse_log_level_def dec_nonempty LOG_LEVEL_BASE_def s RTE_LOG_DEBUG_def
        ucast_64_32_nat)
qed

lemma parse_log_level_range:
  assumes "n = 0 \<or> 8 < n"
  shows "parse_log_level (Some (dec n)) st = (- 1, st)"
proof (cases "ULONG_MAX < int n")
  case True
  then have "strtoul (dec n) 10 = (word_of_int ULONG_MAX, [])"
    by (simp add: strtoul_dec)
  moreover have "(8 :: 64 word) < word_of_int ULONG_MAX"
    by (simp add: ULONG_MAX_def)
  ultimately show ?thesis
    by (simp add: parse_log_level_def dec_nonempty LOG_LEVEL_BASE_def RTE_LOG_DEBUG_def)
next
  case False
  then have s: "strtoul (dec n) 10 = (of_nat n, [])"
    by (simp add: strtoul_dec)
  from False have "n < 2 ^ 64"
    by (simp add: ULONG_MAX_def)
  then have "unat (of_nat n :: 64 word) = n"
    by (rule unat_word64)
  then have "(of_nat n :: 64 word) = 0 \<or> 8 < (of_nat n :: 64 word)"
    using assms by (auto simp: word_less_nat_alt)
  then show ?thesis
    by (auto simp: parse_log_level_def dec_nonempty LOG_LEVEL_BASE_def s RTE_LOG_DEBUG_def)
qed

lemma parse_log_level_not_numeral:
  assumes "\<not> decimal_numeral s"
  shows "parse_log_level (Some s) st = (- 1, st)"
proof (cases "s = []")
  case True
  then show ?thesis by (simp add: parse_log_level_def)
next
  case False
  then have "snd (strtoul s 10) \<noteq> []"
    using assms by (rule strtoul10_not_numeral)
  then obtain level endp where "strtoul s 10 = (level, endp)" "endp \<noteq> []"
    by (cases "strtoul s 10") auto
  then show ?thesis
    using False by (simp add: parse_log_level_def LOG_LEVEL_BASE_def)
qed

text \<open>
  C3. For every \<open>n\<close> from 1 to 8, parsing \<^verbatim>\<open>-v\<close> with the decimal numeral of \<open>n\<close> returns 0
  and sets \<^verbatim>\<open>log_level\<close> to \<open>n\<close>. For the numeral of 0 and of every \<open>n > 8\<close>, for the empty
  string, for every string that is not a decimal number, and for digits followed by a
  character that is not a digit, the usage text is printed and the process is ended with
  \<^verbatim>\<open>EXIT_FAILURE\<close>; \<^verbatim>\<open>log_level\<close> is as before.
\<close>

theorem log_level_option:
  "(1 \<le> n \<and> n \<le> 8 \<longrightarrow>
      ovdk_args_parse_app_args [prog, ''-v'', dec n] st =
        (Returned 0, st\<lparr>progname := Some prog, log_level := of_nat n\<rparr>)
      \<and> unat (ovdk_args_get_log_level
               (snd (ovdk_args_parse_app_args [prog, ''-v'', dec n] st))) = n)
   \<and> (n = 0 \<or> 8 < n \<longrightarrow>
      ovdk_args_parse_app_args [prog, ''-v'', dec n] st =
        usage_and_exit (''Invalid log level specified '' @ [CHR 0x27] @ dec n @ [CHR 0x27, CHR 0x0A])
          prog st)
   \<and> (s = [] \<or> \<not> decimal_numeral s \<longrightarrow>
      ovdk_args_parse_app_args [prog, ''-v'', s] st =
        usage_and_exit (''Invalid log level specified '' @ [CHR 0x27] @ s @ [CHR 0x27, CHR 0x0A])
          prog st)
   \<and> (ds \<noteq> [] \<and> list_all (in_base 10) ds \<and> \<not> in_base 10 c \<longrightarrow>
      ovdk_args_parse_app_args [prog, ''-v'', ds @ c # r] st =
        usage_and_exit
          (''Invalid log level specified '' @ [CHR 0x27] @ (ds @ c # r) @ [CHR 0x27, CHR 0x0A])
          prog st)"
proof (intro conjI impI)
  assume n: "1 \<le> n \<and> n \<le> 8"
  then show ok: "ovdk_args_parse_app_args [prog, ''-v'', dec n] st =
        (Returned 0, st\<lparr>progname := Some prog, log_level := of_nat n\<rparr>)"
    by (simp add: parse_v parse_log_level_accept)
  show "unat (ovdk_args_get_log_level
               (snd (ovdk_args_parse_app_args [prog, ''-v'', dec n] st))) = n"
    using n by (simp add: ok ovdk_args_get_log_level_def unat_of_nat)
next
  assume "n = 0 \<or> 8 < n"
  then show "ovdk_args_parse_app_args [prog, ''-v'', dec n] st =
        usage_and_exit (''Invalid log level specified '' @ [CHR 0x27] @ dec n @ [CHR 0x27, CHR 0x0A])
          prog st"
    by (simp add: parse_v parse_log_level_range usage_and_exit_def)
next
  assume "s = [] \<or> \<not> decimal_numeral s"
  then have "\<not> decimal_numeral s"
    by (auto simp: decimal_numeral_def strip_sign_def)
  then show "ovdk_args_parse_app_args [prog, ''-v'', s] st =
        usage_and_exit (''Invalid log level specified '' @ [CHR 0x27] @ s @ [CHR 0x27, CHR 0x0A])
          prog st"
    by (simp add: parse_v parse_log_level_not_numeral usage_and_exit_def)
next
  assume "ds \<noteq> [] \<and> list_all (in_base 10) ds \<and> \<not> in_base 10 c"
  then have "\<not> decimal_numeral (ds @ c # r)"
    by (simp add: trailing_not_numeral)
  then show "ovdk_args_parse_app_args [prog, ''-v'', ds @ c # r] st =
        usage_and_exit
          (''Invalid log level specified '' @ [CHR 0x27] @ (ds @ c # r) @ [CHR 0x27, CHR 0x0A])
          prog st"
    by (simp add: parse_v parse_log_level_not_numeral usage_and_exit_def)
qed

theorem log_level_option_witness:
  "ovdk_args_parse_app_args [''ovdk'', ''-v'', ''3''] (initial_config 64) =
     (Returned 0, (initial_config 64)\<lparr>progname := Some ''ovdk'', log_level := 3\<rparr>)
   \<and> ovdk_args_parse_app_args [''ovdk'', ''-v'', ''9''] (initial_config 64) =
     usage_and_exit (''Invalid log level specified '' @ [CHR 0x27] @ ''9'' @ [CHR 0x27, CHR 0x0A])
       ''ovdk'' (initial_config 64)
   \<and> ovdk_args_parse_app_args [''ovdk'', ''-v'', ''x3''] (initial_config 64) =
     usage_and_exit (''Invalid log level specified '' @ [CHR 0x27] @ ''x3'' @ [CHR 0x27, CHR 0x0A])
       ''ovdk'' (initial_config 64)
   \<and> ovdk_args_parse_app_args [''ovdk'', ''-v'', ''3x''] (initial_config 64) =
     usage_and_exit (''Invalid log level specified '' @ [CHR 0x27] @ ''3x'' @ [CHR 0x27, CHR 0x0A])
       ''ovdk'' (initial_config 64)"
proof -
  have d3: "dec 3 = ''3''" and d9: "dec 9 = ''9''"
    by (simp_all add: dec.simps digit_char_def)
  have nn: "\<not> decimal_numeral ''x3''"
    by (simp add: decimal_numeral_def strip_sign_def isspace_def in_base_def digit_of_def)
  have tr: "''3'' \<noteq> [] \<and> list_all (in_base 10) ''3'' \<and> \<not> in_base 10 CHR ''x''"
    by (simp add: in_base_def digit_of_def)
  have r3: "(1::nat) \<le> 3 \<and> (3::nat) \<le> 8" and r9: "(9::nat) = 0 \<or> 8 < (9::nat)"
    by simp_all
  have a: "ovdk_args_parse_app_args [''ovdk'', ''-v'', dec 3] (initial_config 64) =
     (Returned 0, (initial_config 64)\<lparr>progname := Some ''ovdk'', log_level := of_nat 3\<rparr>)"
    using log_level_option[of 3 "''ovdk''" "initial_config 64" "''x3''" "''3''" "CHR ''x''" "[]"] r3
    by blast
  have b: "ovdk_args_parse_app_args [''ovdk'', ''-v'', dec 9] (initial_config 64) =
     usage_and_exit (''Invalid log level specified '' @ [CHR 0x27] @ dec 9 @ [CHR 0x27, CHR 0x0A])
       ''ovdk'' (initial_config 64)"
    using log_level_option[of 9 "''ovdk''" "initial_config 64" "''x3''" "''3''" "CHR ''x''" "[]"] r9
    by blast
  have c: "ovdk_args_parse_app_args [''ovdk'', ''-v'', ''x3''] (initial_config 64) =
     usage_and_exit (''Invalid log level specified '' @ [CHR 0x27] @ ''x3'' @ [CHR 0x27, CHR 0x0A])
       ''ovdk'' (initial_config 64)"
    using log_level_option[of 3 "''ovdk''" "initial_config 64" "''x3''" "''3''" "CHR ''x''" "[]"] nn
    by blast
  have d: "ovdk_args_parse_app_args [''ovdk'', ''-v'', ''3'' @ CHR ''x'' # []] (initial_config 64) =
     usage_and_exit
       (''Invalid log level specified '' @ [CHR 0x27] @ (''3'' @ CHR ''x'' # []) @ [CHR 0x27, CHR 0x0A])
       ''ovdk'' (initial_config 64)"
    using log_level_option[of 3 "''ovdk''" "initial_config 64" "''x3''" "''3''" "CHR ''x''" "[]"] tr
    by blast
  show ?thesis
  proof (intro conjI)
    show "ovdk_args_parse_app_args [''ovdk'', ''-v'', ''3''] (initial_config 64) =
       (Returned 0, (initial_config 64)\<lparr>progname := Some ''ovdk'', log_level := 3\<rparr>)"
      using a by (simp add: d3)
    show "ovdk_args_parse_app_args [''ovdk'', ''-v'', ''9''] (initial_config 64) =
       usage_and_exit (''Invalid log level specified '' @ [CHR 0x27] @ ''9'' @ [CHR 0x27, CHR 0x0A])
         ''ovdk'' (initial_config 64)"
      using b by (simp add: d9)
    show "ovdk_args_parse_app_args [''ovdk'', ''-v'', ''x3''] (initial_config 64) =
       usage_and_exit (''Invalid log level specified '' @ [CHR 0x27] @ ''x3'' @ [CHR 0x27, CHR 0x0A])
         ''ovdk'' (initial_config 64)"
      by (rule c)
    show "ovdk_args_parse_app_args [''ovdk'', ''-v'', ''3x''] (initial_config 64) =
       usage_and_exit (''Invalid log level specified '' @ [CHR 0x27] @ ''3x'' @ [CHR 0x27, CHR 0x0A])
         ''ovdk'' (initial_config 64)"
      using d by simp
  qed
qed

section \<open>The port mask option\<close>

lemma parse_portmask_reject:
  "s = [] \<or> snd (strtoul s 16) \<noteq> [] \<Longrightarrow> parse_portmask s st = (- 1, st)"
  by (cases "strtoul s 16") (auto simp: parse_portmask_def PORTMASK_BASE_def)

lemma parse_portmask_hex:
  assumes "hs \<noteq> []" "list_all (in_base 16) hs" "digits_value 16 hs < 2 ^ 64"
  shows "parse_portmask hs st = (0, st\<lparr>port_mask := word_of_int (digits_value 16 hs)\<rparr>)"
  using assms by (simp add: parse_portmask_def PORTMASK_BASE_def strtoul_digits ULONG_MAX_def)

lemma strtoul_trailing16:
  assumes "hs \<noteq> []" "list_all (in_base 16) hs" "\<not> in_base 16 c" "c \<noteq> CHR ''x''" "c \<noteq> CHR ''X''"
  shows "snd (strtoul (hs @ c # r) 16) = c # r"
  by (simp add: strtoul_def scan_number_trailing[OF assms])

lemma dropWhile_sign:
  assumes "sg = [] \<or> sg = ''+'' \<or> sg = ''-''" "in_base b c"
  shows "dropWhile isspace (sg @ c # r) = sg @ c # r"
proof -
  have "\<not> isspace c"
    using assms(2) by (rule in_base_not_space)
  moreover have "\<not> isspace CHR ''+''" "\<not> isspace CHR ''-''"
    by (simp_all add: isspace_def)
  ultimately show ?thesis
    using assms(1) by (elim disjE) simp_all
qed

lemma strip_sign_sign:
  assumes "sg = [] \<or> sg = ''+'' \<or> sg = ''-''" "in_base b c"
  shows "strip_sign (sg @ c # r) = (sg = ''-'', c # r)"
  using assms(1) strip_sign_digit[OF assms(2), of r]
  by (elim disjE) (simp_all add: strip_sign_def)

lemma strip_0x_prefix:
  assumes "pre = [] \<or> pre = ''0x'' \<or> pre = ''0X''" "in_base 16 h" "list_all (in_base 16) r"
  shows "strip_0x 16 (pre @ h # r) = h # r"
proof -
  have "strip_0x 16 (h # r) = h # r"
    using assms(2,3) by (intro strip_0x_digits) simp
  then show ?thesis
    using assms(1,2) by (elim disjE) (simp_all add: strip_0x_def)
qed

lemma prefix_starts_digit:
  assumes "pre = [] \<or> pre = ''0x'' \<or> pre = ''0X''" "in_base 16 h"
  shows "\<exists>c0 r0. pre @ h # r = c0 # r0 \<and> in_base 16 c0"
proof -
  have "in_base 16 CHR ''0''"
    by (simp add: in_base_def digit_of_def)
  then show ?thesis
    using assms by (elim disjE) simp_all
qed

lemma scan_number_full16:
  assumes ws: "list_all isspace ws"
    and sg: "sg = [] \<or> sg = ''+'' \<or> sg = ''-''"
    and pre: "pre = [] \<or> pre = ''0x'' \<or> pre = ''0X''"
    and hs: "hs \<noteq> []" "list_all (in_base 16) hs"
  shows "scan_number 16 (ws @ sg @ pre @ hs) = Some (sg = ''-'', digits_value 16 hs, [])"
proof -
  obtain h r where h: "hs = h # r"
    using hs(1) by (cases hs) auto
  then have hh: "in_base 16 h" and hr: "list_all (in_base 16) r"
    using hs(2) by simp_all
  obtain c0 r0 where ph: "pre @ h # r = c0 # r0" and c0: "in_base 16 c0"
    using prefix_starts_digit[OF pre hh] by blast
  have "dropWhile isspace (ws @ sg @ pre @ hs) = dropWhile isspace (sg @ pre @ hs)"
    using ws by (rule dropWhile_skip)
  also have "\<dots> = dropWhile isspace (sg @ c0 # r0)"
    by (simp only: h ph)
  also have "\<dots> = sg @ c0 # r0"
    using sg c0 by (rule dropWhile_sign)
  finally have d: "dropWhile isspace (ws @ sg @ pre @ hs) = sg @ c0 # r0" .
  have s: "strip_sign (sg @ c0 # r0) = (sg = ''-'', c0 # r0)"
    using sg c0 by (rule strip_sign_sign)
  have x: "strip_0x 16 (c0 # r0) = hs"
    using strip_0x_prefix[OF pre hh hr] by (simp only: h ph)
  show ?thesis
    using hs by (simp add: scan_number_def d s x takeWhile_all dropWhile_all)
qed

lemma parse_portmask_full16:
  assumes "list_all isspace ws"
    and "sg = [] \<or> sg = ''+'' \<or> sg = ''-''"
    and "pre = [] \<or> pre = ''0x'' \<or> pre = ''0X''"
    and "hs \<noteq> []" "list_all (in_base 16) hs"
  shows "parse_portmask (ws @ sg @ pre @ hs) st =
     (0, st\<lparr>port_mask :=
               (if ULONG_MAX < digits_value 16 hs then word_of_int ULONG_MAX
                else if sg = ''-'' then - word_of_int (digits_value 16 hs)
                else word_of_int (digits_value 16 hs))\<rparr>)"
  using assms(4) by (simp add: parse_portmask_def PORTMASK_BASE_def strtoul_def scan_number_full16[OF assms])

text \<open>
  C2, as amended. For every non-empty string \<open>hs\<close> of hexadecimal digits whose value is
  below \<open>2\<^sup>6\<^sup>4\<close>, parsing \<^verbatim>\<open>-p hs\<close> returns 0 and sets \<^verbatim>\<open>port_mask\<close> to that value. For
  the empty string and for every string of which \<^verbatim>\<open>strtoul\<close> leaves something unparsed
  (as it does when hexadecimal digits are followed by a character that is neither such a
  digit nor the \<^verbatim>\<open>x\<close> of a prefix), the usage text is printed and the process is ended with
  \<^verbatim>\<open>EXIT_FAILURE\<close>.
\<close>

theorem portmask_option:
  "(hs \<noteq> [] \<and> list_all (in_base 16) hs \<and> digits_value 16 hs < 2 ^ 64 \<longrightarrow>
      ovdk_args_parse_app_args [prog, ''-p'', hs] st =
        (Returned 0, st\<lparr>progname := Some prog, port_mask := word_of_int (digits_value 16 hs)\<rparr>)
      \<and> uint (ovdk_args_get_portmask (snd (ovdk_args_parse_app_args [prog, ''-p'', hs] st)))
          = digits_value 16 hs)
   \<and> (s = [] \<or> snd (strtoul s 16) \<noteq> [] \<longrightarrow>
      ovdk_args_parse_app_args [prog, ''-p'', s] st =
        usage_and_exit (''Invalid option specified '' @ [CHR 0x27] @ ''p'' @ [CHR 0x27, CHR 0x0A])
          prog st)
   \<and> (hs \<noteq> [] \<and> list_all (in_base 16) hs \<and> \<not> in_base 16 c \<and> c \<noteq> CHR ''x'' \<and> c \<noteq> CHR ''X'' \<longrightarrow>
      ovdk_args_parse_app_args [prog, ''-p'', hs @ c # r] st =
        usage_and_exit (''Invalid option specified '' @ [CHR 0x27] @ ''p'' @ [CHR 0x27, CHR 0x0A])
          prog st)"
proof (intro conjI impI)
  assume h: "hs \<noteq> [] \<and> list_all (in_base 16) hs \<and> digits_value 16 hs < 2 ^ 64"
  then show ok: "ovdk_args_parse_app_args [prog, ''-p'', hs] st =
        (Returned 0, st\<lparr>progname := Some prog, port_mask := word_of_int (digits_value 16 hs)\<rparr>)"
    by (simp add: parse_p parse_portmask_hex)
  have "0 \<le> digits_value 16 hs"
    by (rule digits_value_nonneg) simp
  then show "uint (ovdk_args_get_portmask (snd (ovdk_args_parse_app_args [prog, ''-p'', hs] st)))
          = digits_value 16 hs"
    using h by (simp add: ok ovdk_args_get_portmask_def uint_word64)
next
  assume "s = [] \<or> snd (strtoul s 16) \<noteq> []"
  then show "ovdk_args_parse_app_args [prog, ''-p'', s] st =
        usage_and_exit (''Invalid option specified '' @ [CHR 0x27] @ ''p'' @ [CHR 0x27, CHR 0x0A])
          prog st"
    by (simp add: parse_p parse_portmask_reject usage_and_exit_def)
next
  assume "hs \<noteq> [] \<and> list_all (in_base 16) hs \<and> \<not> in_base 16 c \<and> c \<noteq> CHR ''x'' \<and> c \<noteq> CHR ''X''"
  then have "snd (strtoul (hs @ c # r) 16) \<noteq> []"
    by (simp add: strtoul_trailing16)
  then show "ovdk_args_parse_app_args [prog, ''-p'', hs @ c # r] st =
        usage_and_exit (''Invalid option specified '' @ [CHR 0x27] @ ''p'' @ [CHR 0x27, CHR 0x0A])
          prog st"
    by (simp add: parse_p parse_portmask_reject usage_and_exit_def)
qed

theorem portmask_option_witness:
  "ovdk_args_parse_app_args [''ovdk'', ''-p'', ''ff''] (initial_config 64) =
     (Returned 0, (initial_config 64)\<lparr>progname := Some ''ovdk'', port_mask := 255\<rparr>)
   \<and> ovdk_args_parse_app_args [''ovdk'', ''-p'', ''zz''] (initial_config 64) =
     usage_and_exit (''Invalid option specified '' @ [CHR 0x27] @ ''p'' @ [CHR 0x27, CHR 0x0A])
       ''ovdk'' (initial_config 64)
   \<and> ovdk_args_parse_app_args [''ovdk'', ''-p'', ''ffg''] (initial_config 64) =
     usage_and_exit (''Invalid option specified '' @ [CHR 0x27] @ ''p'' @ [CHR 0x27, CHR 0x0A])
       ''ovdk'' (initial_config 64)"
proof -
  have v: "digits_value 16 ''ff'' = 255"
    by (simp add: digits_value_def digit_val_def digit_of_def)
  have h: "''ff'' \<noteq> [] \<and> list_all (in_base 16) ''ff'' \<and> digits_value 16 ''ff'' < 2 ^ 64"
    by (simp add: v) (simp add: in_base_def digit_of_def)
  have z: "''zz'' = [] \<or> snd (strtoul ''zz'' 16) \<noteq> []"
    by (simp add: strtoul_def scan_number_def strip_sign_def strip_0x_def isspace_def
        in_base_def digit_of_def)
  have g: "''ff'' \<noteq> [] \<and> list_all (in_base 16) ''ff'' \<and> \<not> in_base 16 CHR ''g''
             \<and> CHR ''g'' \<noteq> CHR ''x'' \<and> CHR ''g'' \<noteq> CHR ''X''"
    by (simp add: in_base_def digit_of_def)
  have a: "ovdk_args_parse_app_args [''ovdk'', ''-p'', ''ff''] (initial_config 64) =
     (Returned 0,
      (initial_config 64)\<lparr>progname := Some ''ovdk'',
                           port_mask := word_of_int (digits_value 16 ''ff'')\<rparr>)"
    using portmask_option[of "''ff''" "''ovdk''" "initial_config 64" "''zz''" "CHR ''g''" "[]"] h
    by blast
  have b: "ovdk_args_parse_app_args [''ovdk'', ''-p'', ''zz''] (initial_config 64) =
     usage_and_exit (''Invalid option specified '' @ [CHR 0x27] @ ''p'' @ [CHR 0x27, CHR 0x0A])
       ''ovdk'' (initial_config 64)"
    using portmask_option[of "''ff''" "''ovdk''" "initial_config 64" "''zz''" "CHR ''g''" "[]"] z
    by blast
  have c: "ovdk_args_parse_app_args [''ovdk'', ''-p'', ''ff'' @ CHR ''g'' # []] (initial_config 64) =
     usage_and_exit (''Invalid option specified '' @ [CHR 0x27] @ ''p'' @ [CHR 0x27, CHR 0x0A])
       ''ovdk'' (initial_config 64)"
    using portmask_option[of "''ff''" "''ovdk''" "initial_config 64" "''zz''" "CHR ''g''" "[]"] g
    by blast
  show ?thesis
  proof (intro conjI)
    show "ovdk_args_parse_app_args [''ovdk'', ''-p'', ''ff''] (initial_config 64) =
       (Returned 0, (initial_config 64)\<lparr>progname := Some ''ovdk'', port_mask := 255\<rparr>)"
      using a by (simp add: v)
    show "ovdk_args_parse_app_args [''ovdk'', ''-p'', ''zz''] (initial_config 64) =
       usage_and_exit (''Invalid option specified '' @ [CHR 0x27] @ ''p'' @ [CHR 0x27, CHR 0x0A])
         ''ovdk'' (initial_config 64)"
      by (rule b)
    show "ovdk_args_parse_app_args [''ovdk'', ''-p'', ''ffg''] (initial_config 64) =
       usage_and_exit (''Invalid option specified '' @ [CHR 0x27] @ ''p'' @ [CHR 0x27, CHR 0x0A])
         ''ovdk'' (initial_config 64)"
      using c by simp
  qed
qed

text \<open>
  The claim as it stands promises the value of every valid hexadecimal string. The
  string of a one and sixteen zeros is \<open>2\<^sup>6\<^sup>4\<close>; \<^verbatim>\<open>strtoul\<close> answers \<^verbatim>\<open>ULONG_MAX\<close>, the
  parser does not look at \<^verbatim>\<open>errno\<close>, and \<^verbatim>\<open>port_mask\<close> becomes \<open>2\<^sup>6\<^sup>4 - 1\<close>.
\<close>

theorem portmask_option_counterexample:
  "list_all (in_base 16) ''10000000000000000''
   \<and> digits_value 16 ''10000000000000000'' = 18446744073709551616
   \<and> fst (ovdk_args_parse_app_args [''ovdk'', ''-p'', ''10000000000000000''] (initial_config 64))
       = Returned 0
   \<and> uint (ovdk_args_get_portmask
             (snd (ovdk_args_parse_app_args [''ovdk'', ''-p'', ''10000000000000000'']
                     (initial_config 64)))) = 18446744073709551615"
proof -
  have a: "list_all (in_base 16) ''10000000000000000''"
    by (simp add: in_base_def digit_of_def)
  have v: "digits_value 16 ''10000000000000000'' = 18446744073709551616"
    by (simp add: digits_value_def digit_val_def digit_of_def)
  have "strtoul ''10000000000000000'' 16 = (word_of_int ULONG_MAX, [])"
    using a by (simp add: strtoul_digits v ULONG_MAX_def)
  then have "parse_portmask ''10000000000000000'' st = (0, st\<lparr>port_mask := word_of_int ULONG_MAX\<rparr>)" for st
    by (simp add: parse_portmask_def PORTMASK_BASE_def)
  then show ?thesis
    using a v by (simp add: parse_p ovdk_args_get_portmask_def ULONG_MAX_def)
qed

text \<open>
  C10. \<^verbatim>\<open>parse_portmask\<close> accepts whatever \<^verbatim>\<open>strtoul\<close> reads to the end in base 16:
  leading white space, an optional sign and an optional \<^verbatim>\<open>0x\<close> or \<^verbatim>\<open>0X\<close> before the
  digits. A value above \<^verbatim>\<open>ULONG_MAX\<close> is stored as \<^verbatim>\<open>ULONG_MAX\<close>, a value after a minus sign
  is negated modulo \<open>2\<^sup>6\<^sup>4\<close>: \<^verbatim>\<open>-1\<close> sets \<^verbatim>\<open>port_mask\<close> to \<open>2\<^sup>6\<^sup>4 - 1\<close>, and \<^verbatim>\<open>0x10\<close> sets it
  to 16.
\<close>

theorem portmask_strtoul_grammar:
  "(list_all isspace ws \<and> (sg = [] \<or> sg = ''+'' \<or> sg = ''-'')
      \<and> (pre = [] \<or> pre = ''0x'' \<or> pre = ''0X'') \<and> hs \<noteq> [] \<and> list_all (in_base 16) hs \<longrightarrow>
      ovdk_args_parse_app_args [prog, ''-p'', ws @ sg @ pre @ hs] st =
        (Returned 0,
         st\<lparr>progname := Some prog,
            port_mask :=
              (if ULONG_MAX < digits_value 16 hs then word_of_int ULONG_MAX
               else if sg = ''-'' then - word_of_int (digits_value 16 hs)
               else word_of_int (digits_value 16 hs))\<rparr>))
   \<and> ovdk_args_parse_app_args [prog, ''-p'', ''-1''] st =
        (Returned 0, st\<lparr>progname := Some prog, port_mask := word_of_int (2 ^ 64 - 1)\<rparr>)
   \<and> ovdk_args_parse_app_args [prog, ''-p'', ''0x10''] st =
        (Returned 0, st\<lparr>progname := Some prog, port_mask := 16\<rparr>)"
proof (intro conjI impI)
  assume "list_all isspace ws \<and> (sg = [] \<or> sg = ''+'' \<or> sg = ''-'')
      \<and> (pre = [] \<or> pre = ''0x'' \<or> pre = ''0X'') \<and> hs \<noteq> [] \<and> list_all (in_base 16) hs"
  then show "ovdk_args_parse_app_args [prog, ''-p'', ws @ sg @ pre @ hs] st =
        (Returned 0,
         st\<lparr>progname := Some prog,
            port_mask :=
              (if ULONG_MAX < digits_value 16 hs then word_of_int ULONG_MAX
               else if sg = ''-'' then - word_of_int (digits_value 16 hs)
               else word_of_int (digits_value 16 hs))\<rparr>)"
    by (simp add: parse_p parse_portmask_full16)
next
  have "parse_portmask ([] @ ''-'' @ [] @ ''1'') st' =
     (0, st'\<lparr>port_mask :=
               (if ULONG_MAX < digits_value 16 ''1'' then word_of_int ULONG_MAX
                else if ''-'' = ''-'' then - word_of_int (digits_value 16 ''1'')
                else word_of_int (digits_value 16 ''1''))\<rparr>)" for st'
    by (rule parse_portmask_full16) (simp_all add: in_base_def digit_of_def)
  then have "parse_portmask ''-1'' st' = (0, st'\<lparr>port_mask := - 1\<rparr>)" for st'
    by (simp add: digits_value_def digit_val_def digit_of_def ULONG_MAX_def)
  then show "ovdk_args_parse_app_args [prog, ''-p'', ''-1''] st =
        (Returned 0, st\<lparr>progname := Some prog, port_mask := word_of_int (2 ^ 64 - 1)\<rparr>)"
    by (simp add: parse_p)
next
  have "parse_portmask ([] @ [] @ ''0x'' @ ''10'') st' =
     (0, st'\<lparr>port_mask :=
               (if ULONG_MAX < digits_value 16 ''10'' then word_of_int ULONG_MAX
                else if [] = ''-'' then - word_of_int (digits_value 16 ''10'')
                else word_of_int (digits_value 16 ''10''))\<rparr>)" for st'
    by (rule parse_portmask_full16) (simp_all add: in_base_def digit_of_def)
  then have "parse_portmask ''0x10'' st' = (0, st'\<lparr>port_mask := 16\<rparr>)" for st'
    by (simp add: digits_value_def digit_val_def digit_of_def ULONG_MAX_def)
  then show "ovdk_args_parse_app_args [prog, ''-p'', ''0x10''] st =
        (Returned 0, st\<lparr>progname := Some prog, port_mask := 16\<rparr>)"
    by (simp add: parse_p)
qed

theorem portmask_strtoul_grammar_witness:
  "ovdk_args_parse_app_args [''ovdk'', ''-p'', '' +0X1f''] (initial_config 64) =
     (Returned 0, (initial_config 64)\<lparr>progname := Some ''ovdk'', port_mask := 31\<rparr>)"
proof -
  have v: "digits_value 16 ''1f'' = 31"
    by (simp add: digits_value_def digit_val_def digit_of_def)
  have h: "list_all isspace '' '' \<and> (''+'' = [] \<or> ''+'' = ''+'' \<or> ''+'' = ''-'')
      \<and> (''0X'' = [] \<or> ''0X'' = ''0x'' \<or> ''0X'' = ''0X'') \<and> ''1f'' \<noteq> []
      \<and> list_all (in_base 16) ''1f''"
    by (simp add: isspace_def in_base_def digit_of_def)
  have "ovdk_args_parse_app_args [''ovdk'', ''-p'', '' '' @ ''+'' @ ''0X'' @ ''1f'']
          (initial_config 64) =
        (Returned 0,
         (initial_config 64)\<lparr>progname := Some ''ovdk'',
            port_mask :=
              (if ULONG_MAX < digits_value 16 ''1f'' then word_of_int ULONG_MAX
               else if ''+'' = ''-'' then - word_of_int (digits_value 16 ''1f'')
               else word_of_int (digits_value 16 ''1f''))\<rparr>)"
    using portmask_strtoul_grammar[of "'' ''" "''+''" "''0X''" "''1f''" "''ovdk''" "initial_config 64"] h
    by blast
  then show ?thesis
    by (simp add: v ULONG_MAX_def)
qed

section \<open>The statistics options\<close>

lemma strtol_no_digits: "scan_number 10 s = None \<Longrightarrow> atoi s = 0"
  by (simp add: atoi_def strtol_def)

lemma scan_number_None_iff:
  "scan_number 10 s = None \<longleftrightarrow> takeWhile (in_base 10) (snd (strip_sign (dropWhile isspace s))) = []"
  by (cases "strip_sign (dropWhile isspace s)") (simp add: scan_number_def strip_0x_10 Let_def)

lemma atoi_trailing:
  assumes "ds \<noteq> []" "list_all (in_base 10) ds" "\<not> in_base 10 c"
  shows "atoi (ds @ c # r) = atoi ds"
  using assms
  by (simp add: atoi_def strtol_def scan_number_trailing10 scan_number_digits)

lemma atoi_5: "atoi ''5'' = 5"
  by (simp add: atoi_def strtol_def scan_number_def strip_sign_def strip_0x_def isspace_def
      in_base_def digit_of_def digits_value_def digit_val_def LONG_MAX_def)

lemma atoi_2: "atoi ''2'' = 2"
  by (simp add: atoi_def strtol_def scan_number_def strip_sign_def strip_0x_def isspace_def
      in_base_def digit_of_def digits_value_def digit_val_def LONG_MAX_def)

lemma parse_no_args:
  "ovdk_args_parse_app_args [prog] st = (Returned 0, st\<lparr>progname := Some prog\<rparr>)"
  by (simp add: ovdk_args_parse_app_args_def parse_loop_end getopt_init_def)

text \<open>
  C6. \<^verbatim>\<open>--stats_int\<close> and \<^verbatim>\<open>--stats_core\<close> accept every argument string: parsing returns 0
  and the variable is overwritten with \<^verbatim>\<open>atoi\<close> of the argument. \<^verbatim>\<open>atoi\<close> gives 0 when no
  digit follows the white space and sign at the start of the string, and it ignores what
  follows the digits. So \<^verbatim>\<open>--stats_int 5\<close> gives \<^verbatim>\<open>stats_interval = 5\<close>,
  \<^verbatim>\<open>--stats_core 2\<close> gives \<^verbatim>\<open>stats_core = 2\<close>, and without the options the variables
  keep their initial values 0 and \<open>-1\<close>.
\<close>

theorem stats_options:
  "ovdk_args_parse_app_args [prog, ''--stats_int'', s] st =
     (Returned 0, st\<lparr>progname := Some prog, stats_interval := atoi s\<rparr>)
   \<and> ovdk_args_parse_app_args [prog, ''--stats_core'', s] st =
     (Returned 0, st\<lparr>progname := Some prog, stats_core := atoi s\<rparr>)
   \<and> (takeWhile (in_base 10) (snd (strip_sign (dropWhile isspace s))) = [] \<longrightarrow> atoi s = 0)
   \<and> (ds \<noteq> [] \<and> list_all (in_base 10) ds \<and> \<not> in_base 10 c \<longrightarrow> atoi (ds @ c # r) = atoi ds)
   \<and> sint (ovdk_args_get_stats_interval
             (snd (ovdk_args_parse_app_args [prog, ''--stats_int'', ''5'']
                     (initial_config dflt)))) = 5
   \<and> sint (ovdk_args_get_stats_core
             (snd (ovdk_args_parse_app_args [prog, ''--stats_core'', ''2'']
                     (initial_config dflt)))) = 2
   \<and> sint (ovdk_args_get_stats_interval
             (snd (ovdk_args_parse_app_args [prog] (initial_config dflt)))) = 0
   \<and> sint (ovdk_args_get_stats_core
             (snd (ovdk_args_parse_app_args [prog] (initial_config dflt)))) = - 1"
proof (intro conjI impI)
  show "ovdk_args_parse_app_args [prog, ''--stats_int'', s] st =
     (Returned 0, st\<lparr>progname := Some prog, stats_interval := atoi s\<rparr>)"
    by (rule parse_stats_int)
  show "ovdk_args_parse_app_args [prog, ''--stats_core'', s] st =
     (Returned 0, st\<lparr>progname := Some prog, stats_core := atoi s\<rparr>)"
    by (rule parse_stats_core)
  show "atoi s = 0" if "takeWhile (in_base 10) (snd (strip_sign (dropWhile isspace s))) = []"
    using that by (simp add: strtol_no_digits scan_number_None_iff)
  show "atoi (ds @ c # r) = atoi ds" if "ds \<noteq> [] \<and> list_all (in_base 10) ds \<and> \<not> in_base 10 c"
    using that by (simp add: atoi_trailing)
  show "sint (ovdk_args_get_stats_interval
             (snd (ovdk_args_parse_app_args [prog, ''--stats_int'', ''5'']
                     (initial_config dflt)))) = 5"
    by (simp add: parse_stats_int ovdk_args_get_stats_interval_def atoi_5)
  show "sint (ovdk_args_get_stats_core
             (snd (ovdk_args_parse_app_args [prog, ''--stats_core'', ''2'']
                     (initial_config dflt)))) = 2"
    by (simp add: parse_stats_core ovdk_args_get_stats_core_def atoi_2)
  show "sint (ovdk_args_get_stats_interval
             (snd (ovdk_args_parse_app_args [prog] (initial_config dflt)))) = 0"
    by (simp add: parse_no_args ovdk_args_get_stats_interval_def initial_config_def)
  show "sint (ovdk_args_get_stats_core
             (snd (ovdk_args_parse_app_args [prog] (initial_config dflt)))) = - 1"
    by (simp add: parse_no_args ovdk_args_get_stats_core_def initial_config_def)
qed

theorem stats_options_witness:
  "sint (atoi ''x7'') = 0 \<and> atoi ''7x'' = atoi ''7''
   \<and> sint (ovdk_args_get_stats_interval
             (snd (ovdk_args_parse_app_args [''ovdk'', ''--stats_int'', ''5'']
                     (initial_config 1518)))) = 5"
proof -
  have a: "takeWhile (in_base 10) (snd (strip_sign (dropWhile isspace ''x7''))) = []"
    by (simp add: strip_sign_def isspace_def in_base_def digit_of_def)
  have b: "''7'' \<noteq> [] \<and> list_all (in_base 10) ''7'' \<and> \<not> in_base 10 CHR ''x''"
    by (simp add: in_base_def digit_of_def)
  note t = stats_options[of "''ovdk''" "''x7''" "initial_config 1518" "''7''" "CHR ''x''" "[]" 1518]
  have "atoi ''x7'' = 0"
    using t a by blast
  moreover have "atoi (''7'' @ CHR ''x'' # []) = atoi ''7''"
    using t b by blast
  moreover have "sint (ovdk_args_get_stats_interval
             (snd (ovdk_args_parse_app_args [''ovdk'', ''--stats_int'', ''5'']
                     (initial_config 1518)))) = 5"
    using t by blast
  ultimately show ?thesis
    by simp
qed

section \<open>A whole command line\<close>

lemma parse_loop_unfold:
  "getopt_long argv ''p:v:J:'' lgopts li d = (opt, li', d') \<Longrightarrow> opt \<noteq> EOF \<Longrightarrow>
     switch_opt argv opt li' d' st = Inr st' \<Longrightarrow>
     parse_loop argv li d st = parse_loop argv li' d' st'"
  by (subst parse_loop.simps) simp

lemmas number_defs = strtoul_def strtol_def scan_number_def strip_sign_def strip_0x_def
  isspace_def in_base_def digit_of_def digits_value_def digit_val_def ULONG_MAX_def LONG_MAX_def

lemma parse_portmask_f: "parse_portmask ''f'' st = (0, st\<lparr>port_mask := 15\<rparr>)"
  by (simp add: parse_portmask_def PORTMASK_BASE_def number_defs)

lemma parse_log_level_3: "parse_log_level (Some ''3'') st = (0, st\<lparr>log_level := 3\<rparr>)"
  by (simp add: parse_log_level_def LOG_LEVEL_BASE_def RTE_LOG_DEBUG_def number_defs)

lemma atoi_10: "atoi ''10'' = 10"
  by (simp add: atoi_def number_defs)

lemma parse_example:
  "ovdk_args_parse_app_args [prog, ''-p'', ''f'', ''-v'', ''3'', ''--stats_int'', ''10'']
     (initial_config dflt) =
     (Returned 0,
      \<lparr>progname = Some prog, port_mask = 15, stats_interval = 10, stats_core = - 1,
       log_level = 3, max_frame_size = dflt, printed = []\<rparr>)"
  apply (simp add: ovdk_args_parse_app_args_def initial_config_def)
  apply (subst parse_loop.simps, simp add: getopt_defs switch_opt_def parse_portmask_f)
  apply (subst parse_loop.simps, simp add: getopt_defs switch_opt_def parse_log_level_3)
  apply (subst parse_loop.simps, simp add: getopt_defs switch_opt_def strncmp_def atoi_10)
  apply (simp add: parse_loop_end)
  done

text \<open>
  C8. On the arguments \<^verbatim>\<open>-p f -v 3 --stats_int 10\<close>, behind the program name in
  \<^verbatim>\<open>argv[0]\<close>, parsing returns 0, and afterwards the accessors return
  \<^verbatim>\<open>port_mask = 15\<close>, \<^verbatim>\<open>log_level = 3\<close>, \<^verbatim>\<open>stats_interval = 10\<close>, \<^verbatim>\<open>stats_core = -1\<close> and
  the compiled-in default of \<^verbatim>\<open>max_frame_size\<close>.
\<close>

theorem end_to_end:
  "fst (ovdk_args_parse_app_args [prog, ''-p'', ''f'', ''-v'', ''3'', ''--stats_int'', ''10'']
          (initial_config dflt)) = Returned 0
   \<and> ovdk_args_get_portmask
       (snd (ovdk_args_parse_app_args [prog, ''-p'', ''f'', ''-v'', ''3'', ''--stats_int'', ''10'']
               (initial_config dflt))) = 15
   \<and> ovdk_args_get_log_level
       (snd (ovdk_args_parse_app_args [prog, ''-p'', ''f'', ''-v'', ''3'', ''--stats_int'', ''10'']
               (initial_config dflt))) = 3
   \<and> sint (ovdk_args_get_stats_interval
       (snd (ovdk_args_parse_app_args [prog, ''-p'', ''f'', ''-v'', ''3'', ''--stats_int'', ''10'']
               (initial_config dflt)))) = 10
   \<and> sint (ovdk_args_get_stats_core
       (snd (ovdk_args_parse_app_args [prog, ''-p'', ''f'', ''-v'', ''3'', ''--stats_int'', ''10'']
               (initial_config dflt)))) = - 1
   \<and> ovdk_args_get_max_frame_size
       (snd (ovdk_args_parse_app_args [prog, ''-p'', ''f'', ''-v'', ''3'', ''--stats_int'', ''10'']
               (initial_config dflt))) = dflt"
  by (simp add: parse_example ovdk_args_get_portmask_def ovdk_args_get_log_level_def
      ovdk_args_get_stats_interval_def ovdk_args_get_stats_core_def
      ovdk_args_get_max_frame_size_def)

theorem end_to_end_witness:
  "ovdk_args_get_portmask
       (snd (ovdk_args_parse_app_args
               [''ovdk'', ''-p'', ''f'', ''-v'', ''3'', ''--stats_int'', ''10'']
               (initial_config 1518))) = 15
   \<and> ovdk_args_get_max_frame_size
       (snd (ovdk_args_parse_app_args
               [''ovdk'', ''-p'', ''f'', ''-v'', ''3'', ''--stats_int'', ''10'']
               (initial_config 1518))) = 1518"
  using end_to_end[of "''ovdk''" 1518] by blast

section \<open>Options that getopt\_long refuses\<close>

lemma skip_nonoptions_here:
  assumes "i < length argv" "\<not> NONOPTION_P (argv ! i)"
  shows "skip_nonoptions argv i = i"
proof -
  have "drop i argv = argv ! i # drop (Suc i) argv"
    using assms(1) by (simp add: Cons_nth_drop_Suc)
  then show ?thesis
    using assms(2) by (simp add: skip_nonoptions_def)
qed

lemma of_char_nonzero:
  assumes "c \<noteq> CHR 0x00"
  shows "(of_char c :: int) \<noteq> 0"
proof
  assume "of_char c = (0::int)"
  then have "(of_char c :: int) = of_char (CHR 0x00)"
    by simp
  then have "c = CHR 0x00"
    by (simp only: of_char_eq_iff)
  with assms show False
    by simp
qed

lemma of_char_code:
  "((of_char c :: int) = 112) = (c = CHR ''p'')"
  "((of_char c :: int) = 118) = (c = CHR ''v'')"
  "((of_char c :: int) = 74) = (c = CHR ''J'')"
proof -
  have "(of_char c :: int) = of_char CHR ''p'' \<longleftrightarrow> c = CHR ''p''"
    by (simp only: of_char_eq_iff)
  then show "((of_char c :: int) = 112) = (c = CHR ''p'')"
    by simp
  have "(of_char c :: int) = of_char CHR ''v'' \<longleftrightarrow> c = CHR ''v''"
    by (simp only: of_char_eq_iff)
  then show "((of_char c :: int) = 118) = (c = CHR ''v'')"
    by simp
  have "(of_char c :: int) = of_char CHR ''J'' \<longleftrightarrow> c = CHR ''J''"
    by (simp only: of_char_eq_iff)
  then show "((of_char c :: int) = 74) = (c = CHR ''J'')"
    by simp
qed

text \<open>What \<^verbatim>\<open>getopt_short\<close> answers on the option string of the program.\<close>

lemma getopt_short_unknown:
  assumes "nextchar d = c # cs" "c \<noteq> CHR ''p''" "c \<noteq> CHR ''v''" "c \<noteq> CHR ''J''"
  shows "getopt_short argv ''p:v:J:'' li d =
     (63, li, d\<lparr>nextchar := cs, optind := (if cs = [] then optind d + 1 else optind d),
               optopt := of_char c\<rparr>)"
  using assms by (simp add: getopt_short_def Let_def)

lemma getopt_short_known:
  assumes "nextchar d = c # cs" "c = CHR ''p'' \<or> c = CHR ''v'' \<or> c = CHR ''J''"
  shows "getopt_short argv ''p:v:J:'' li d =
     (if cs \<noteq> [] then (of_char c, li, d\<lparr>nextchar := [], optind := optind d + 1, optarg := Some cs\<rparr>)
      else if length argv \<le> optind d + 1
        then (63, li, d\<lparr>nextchar := [], optind := optind d + 1, optopt := of_char c\<rparr>)
      else (of_char c, li,
            d\<lparr>nextchar := [], optind := optind d + 2, optarg := Some (argv ! (optind d + 1))\<rparr>))"
  using assms(2)
  by (elim disjE) (simp_all add: getopt_short_def Let_def assms(1) missing_arg_code_def)

lemma find_long_lgopts:
  "find_long lgopts nm =
     (if nm = ''stats_int'' \<or> (nm \<noteq> ''stats_core'' \<and> take (length nm) ''stats_int'' = nm)
      then Match 0 \<lparr>lo_name = ''stats_int'', lo_has_arg = 1, lo_val = 0\<rparr>
      else if take (length nm) ''stats_core'' = nm
      then Match 1 \<lparr>lo_name = ''stats_core'', lo_has_arg = 1, lo_val = 0\<rparr>
      else NoMatch)"
  by (auto simp: find_long_def lgopts_def PARAM_STATS_INTERVAL_def PARAM_STATS_CORE_def
      required_argument_def enumerate_eq_zip upt_rec)

lemma dashes_option:
  assumes "take 2 e = ''--''"
  shows "\<not> NONOPTION_P e"
proof -
  obtain r where "e = CHR ''-'' # CHR ''-'' # r"
    using assms by (cases e; cases "tl e") auto
  then show ?thesis
    by (simp add: NONOPTION_P_def)
qed

lemma getopt_long_unknown_long:
  assumes "i < length argv" "optind d = i" "nextchar d = []"
    and "take 2 (argv ! i) = ''--''" "argv ! i \<noteq> ''--''"
    and "nm = takeWhile (\<lambda>x. x \<noteq> CHR ''='') (drop 2 (argv ! i))"
    and "take (length nm) ''stats_int'' \<noteq> nm" "take (length nm) ''stats_core'' \<noteq> nm"
  shows "getopt_long argv ''p:v:J:'' lgopts li d =
     (63, li, d\<lparr>optarg := None, optind := i + 1, nextchar := [], optopt := 0\<rparr>)"
proof -
  have ne: "argv \<noteq> []"
    using assms(1) by auto
  have s: "skip_nonoptions argv i = i"
    using assms(1) dashes_option[OF assms(4)] by (rule skip_nonoptions_here)
  have n1: "nm \<noteq> ''stats_int''" and n2: "nm \<noteq> ''stats_core''"
    using assms(7,8) by auto
  have f: "find_long lgopts nm = NoMatch"
    using assms(7,8) n1 n2 by (simp add: find_long_lgopts)
  show ?thesis
    using assms(1,2,3,4,5) f assms(6)[symmetric] ne
    by (simp add: getopt_long_def process_long_option_def Let_def s)
qed

lemma getopt_long_long_missing:
  assumes "Suc i = length argv" "optind d = i" "nextchar d = []"
    and "argv ! i = ''--stats_int'' \<or> argv ! i = ''--stats_core''"
  shows "getopt_long argv ''p:v:J:'' lgopts li d =
     (63, li, d\<lparr>optarg := None, optind := i + 1, nextchar := [], optopt := 0\<rparr>)"
proof -
  have i: "i < length argv" and ne: "argv \<noteq> []"
    using assms(1) by auto
  have "\<not> NONOPTION_P (argv ! i)"
    using assms(4) by (auto simp: NONOPTION_P_def)
  with i have s: "skip_nonoptions argv i = i"
    by (rule skip_nonoptions_here)
  show ?thesis
    using assms(4) ne
    by (elim disjE)
       (simp_all add: getopt_long_def process_long_option_def Let_def s assms(1)[symmetric] assms(2,3)
          find_long_lgopts missing_arg_code_def)
qed

lemma getopt_long_short_element:
  assumes "i < length argv" "optind d = i" "nextchar d = []"
    and "argv ! i = CHR ''-'' # c # cs" "c \<noteq> CHR ''-''"
  shows "getopt_long argv ''p:v:J:'' lgopts li d =
     getopt_short argv ''p:v:J:'' li (d\<lparr>optarg := None, optind := i, nextchar := c # cs\<rparr>)"
proof -
  have "\<not> NONOPTION_P (argv ! i)"
    using assms(4,5) by (simp add: NONOPTION_P_def)
  with assms(1) have s: "skip_nonoptions argv i = i"
    by (rule skip_nonoptions_here)
  have "argv \<noteq> []"
    using assms(1) by auto
  then show ?thesis
    using assms by (simp add: getopt_long_def Let_def s)
qed

lemma switch_opt_error:
  "switch_opt argv 63 li d st =
     (if optopt d \<noteq> 0
      then Inl (Exited EXIT_FAILURE
                  (''Invalid option '' @ [CHR 0x27] @ ''-'' @ [char_of (optopt d), CHR 0x27, CHR 0x0A]),
                ovdk_args_usage (progname st) st)
      else Inl (Exited EXIT_FAILURE
                  (''Invalid option '' @ [CHR 0x27] @ ''--'' @ argv_str argv (optind d - 1)
                     @ [CHR 0x27, CHR 0x0A]),
                ovdk_args_usage (progname st) st))"
  by (simp add: switch_opt_def)

lemma parse_loop_error:
  assumes "getopt_long argv ''p:v:J:'' lgopts li d = (63, li', d')"
  shows "parse_loop argv li d st =
     (if optopt d' \<noteq> 0
      then (Exited EXIT_FAILURE
              (''Invalid option '' @ [CHR 0x27] @ ''-'' @ [char_of (optopt d'), CHR 0x27, CHR 0x0A]),
            ovdk_args_usage (progname st) st)
      else (Exited EXIT_FAILURE
              (''Invalid option '' @ [CHR 0x27] @ ''--'' @ argv_str argv (optind d' - 1)
                 @ [CHR 0x27, CHR 0x0A]),
            ovdk_args_usage (progname st) st))"
  by (subst parse_loop.simps) (simp add: assms EOF_def switch_opt_error)

text \<open>
  C7. Wherever the scan stands, when the next element is an option that is not
  recognised (a short option other than \<^verbatim>\<open>p\<close>, \<^verbatim>\<open>v\<close>, \<^verbatim>\<open>J\<close>, or a long option whose name
  abbreviates neither \<^verbatim>\<open>stats_int\<close> nor \<^verbatim>\<open>stats_core\<close>), or a recognised option that is
  the last element and so lacks its argument, the usage text is printed and the process
  is ended with \<^verbatim>\<open>EXIT_FAILURE\<close>. The message holds the character of a short option, and
  for a long option the whole element \<^verbatim>\<open>argv[optind - 1]\<close>, which holds its name.
\<close>

theorem invalid_option:
  assumes "optind d = i" "nextchar d = []" "i < length argv"
  shows
  "(argv ! i = CHR ''-'' # c # cs \<and> c \<noteq> CHR ''p'' \<and> c \<noteq> CHR ''v'' \<and> c \<noteq> CHR ''J''
       \<and> c \<noteq> CHR ''-'' \<and> c \<noteq> CHR 0x00 \<longrightarrow>
     parse_loop argv li d st =
       (Exited EXIT_FAILURE (''Invalid option '' @ [CHR 0x27] @ ''-'' @ [c, CHR 0x27, CHR 0x0A]),
        ovdk_args_usage (progname st) st))
   \<and> (argv ! i = [CHR ''-'', c] \<and> (c = CHR ''p'' \<or> c = CHR ''v'' \<or> c = CHR ''J'')
       \<and> Suc i = length argv \<longrightarrow>
     parse_loop argv li d st =
       (Exited EXIT_FAILURE (''Invalid option '' @ [CHR 0x27] @ ''-'' @ [c, CHR 0x27, CHR 0x0A]),
        ovdk_args_usage (progname st) st))
   \<and> (take 2 (argv ! i) = ''--'' \<and> argv ! i \<noteq> ''--''
       \<and> nm = takeWhile (\<lambda>x. x \<noteq> CHR ''='') (drop 2 (argv ! i))
       \<and> take (length nm) PARAM_STATS_INTERVAL \<noteq> nm \<and> take (length nm) PARAM_STATS_CORE \<noteq> nm \<longrightarrow>
     parse_loop argv li d st =
       (Exited EXIT_FAILURE (''Invalid option '' @ [CHR 0x27] @ ''--'' @ argv ! i @ [CHR 0x27, CHR 0x0A]),
        ovdk_args_usage (progname st) st))
   \<and> ((argv ! i = ''--'' @ PARAM_STATS_INTERVAL \<or> argv ! i = ''--'' @ PARAM_STATS_CORE)
       \<and> Suc i = length argv \<longrightarrow>
     parse_loop argv li d st =
       (Exited EXIT_FAILURE (''Invalid option '' @ [CHR 0x27] @ ''--'' @ argv ! i @ [CHR 0x27, CHR 0x0A]),
        ovdk_args_usage (progname st) st))"
proof (intro conjI impI)
  assume a: "argv ! i = CHR ''-'' # c # cs \<and> c \<noteq> CHR ''p'' \<and> c \<noteq> CHR ''v'' \<and> c \<noteq> CHR ''J''
       \<and> c \<noteq> CHR ''-'' \<and> c \<noteq> CHR 0x00"
  then have "getopt_long argv ''p:v:J:'' lgopts li d =
     getopt_short argv ''p:v:J:'' li (d\<lparr>optarg := None, optind := i, nextchar := c # cs\<rparr>)"
    using assms by (intro getopt_long_short_element) simp_all
  also have "\<dots> = (63, li, d\<lparr>optarg := None, optind := i, nextchar := c # cs\<rparr>
        \<lparr>nextchar := cs, optind := (if cs = [] then i + 1 else i), optopt := of_char c\<rparr>)"
    using a by (subst getopt_short_unknown[of _ c cs]) simp_all
  finally show "parse_loop argv li d st =
       (Exited EXIT_FAILURE (''Invalid option '' @ [CHR 0x27] @ ''-'' @ [c, CHR 0x27, CHR 0x0A]),
        ovdk_args_usage (progname st) st)"
    using a by (simp add: parse_loop_error of_char_nonzero)
next
  assume a: "argv ! i = [CHR ''-'', c] \<and> (c = CHR ''p'' \<or> c = CHR ''v'' \<or> c = CHR ''J'')
       \<and> Suc i = length argv"
  then have c: "c \<noteq> CHR ''-''" "c \<noteq> CHR 0x00"
    by auto
  have "getopt_long argv ''p:v:J:'' lgopts li d =
     getopt_short argv ''p:v:J:'' li (d\<lparr>optarg := None, optind := i, nextchar := [c]\<rparr>)"
    using assms a c by (intro getopt_long_short_element) simp_all
  also have "\<dots> = (63, li, d\<lparr>optarg := None, optind := i, nextchar := [c]\<rparr>
        \<lparr>nextchar := [], optind := i + 1, optopt := of_char c\<rparr>)"
    using a by (subst getopt_short_known[of _ c "[]"]) auto
  finally show "parse_loop argv li d st =
       (Exited EXIT_FAILURE (''Invalid option '' @ [CHR 0x27] @ ''-'' @ [c, CHR 0x27, CHR 0x0A]),
        ovdk_args_usage (progname st) st)"
    using c by (simp add: parse_loop_error of_char_nonzero)
next
  assume a: "take 2 (argv ! i) = ''--'' \<and> argv ! i \<noteq> ''--''
       \<and> nm = takeWhile (\<lambda>x. x \<noteq> CHR ''='') (drop 2 (argv ! i))
       \<and> take (length nm) PARAM_STATS_INTERVAL \<noteq> nm \<and> take (length nm) PARAM_STATS_CORE \<noteq> nm"
  then have f: "take 2 (argv ! i) = ''--''" "argv ! i \<noteq> ''--''"
      "nm = takeWhile (\<lambda>x. x \<noteq> CHR ''='') (drop 2 (argv ! i))"
      "take (length nm) ''stats_int'' \<noteq> nm" "take (length nm) ''stats_core'' \<noteq> nm"
    unfolding PARAM_STATS_INTERVAL_def PARAM_STATS_CORE_def by blast+
  have "getopt_long argv ''p:v:J:'' lgopts li d =
     (63, li, d\<lparr>optarg := None, optind := i + 1, nextchar := [], optopt := 0\<rparr>)"
    using assms(3,1,2) f by (rule getopt_long_unknown_long)
  then show "parse_loop argv li d st =
       (Exited EXIT_FAILURE (''Invalid option '' @ [CHR 0x27] @ ''--'' @ argv ! i @ [CHR 0x27, CHR 0x0A]),
        ovdk_args_usage (progname st) st)"
    using assms(3) by (simp add: parse_loop_error argv_str_def)
next
  assume a: "(argv ! i = ''--'' @ PARAM_STATS_INTERVAL \<or> argv ! i = ''--'' @ PARAM_STATS_CORE)
       \<and> Suc i = length argv"
  then have "getopt_long argv ''p:v:J:'' lgopts li d =
     (63, li, d\<lparr>optarg := None, optind := i + 1, nextchar := [], optopt := 0\<rparr>)"
    using assms
    by (intro getopt_long_long_missing)
       (simp_all add: PARAM_STATS_INTERVAL_def PARAM_STATS_CORE_def)
  then show "parse_loop argv li d st =
       (Exited EXIT_FAILURE (''Invalid option '' @ [CHR 0x27] @ ''--'' @ argv ! i @ [CHR 0x27, CHR 0x0A]),
        ovdk_args_usage (progname st) st)"
    using assms(3) by (simp add: parse_loop_error argv_str_def)
qed

theorem invalid_option_witness:
  "ovdk_args_parse_app_args [''ovdk'', ''-z''] (initial_config 64) =
     usage_and_exit (''Invalid option '' @ [CHR 0x27] @ ''-z'' @ [CHR 0x27, CHR 0x0A])
       ''ovdk'' (initial_config 64)
   \<and> ovdk_args_parse_app_args [''ovdk'', ''-p''] (initial_config 64) =
     usage_and_exit (''Invalid option '' @ [CHR 0x27] @ ''-p'' @ [CHR 0x27, CHR 0x0A])
       ''ovdk'' (initial_config 64)
   \<and> ovdk_args_parse_app_args [''ovdk'', ''--zz=1''] (initial_config 64) =
     usage_and_exit (''Invalid option '' @ [CHR 0x27] @ ''----zz=1'' @ [CHR 0x27, CHR 0x0A])
       ''ovdk'' (initial_config 64)
   \<and> ovdk_args_parse_app_args [''ovdk'', ''--stats_int''] (initial_config 64) =
     usage_and_exit (''Invalid option '' @ [CHR 0x27] @ ''----stats_int'' @ [CHR 0x27, CHR 0x0A])
       ''ovdk'' (initial_config 64)"
proof -
  let ?st = "(initial_config 64)\<lparr>progname := Some ''ovdk''\<rparr>"
  have p: "optind getopt_init = 1" "nextchar getopt_init = []"
    by (simp_all add: getopt_init_def)
  have a: "parse_loop [''ovdk'', ''-z''] 0 getopt_init ?st =
       (Exited EXIT_FAILURE (''Invalid option '' @ [CHR 0x27] @ ''-'' @ [CHR ''z'', CHR 0x27, CHR 0x0A]),
        ovdk_args_usage (progname ?st) ?st)"
    using invalid_option[where d = getopt_init and i = 1 and argv = "[''ovdk'', ''-z'']"
        and c = "CHR ''z''" and cs = "[]" and li = 0 and st = ?st and nm = "''zz''"] p
    by simp
  have b: "parse_loop [''ovdk'', ''-p''] 0 getopt_init ?st =
       (Exited EXIT_FAILURE (''Invalid option '' @ [CHR 0x27] @ ''-'' @ [CHR ''p'', CHR 0x27, CHR 0x0A]),
        ovdk_args_usage (progname ?st) ?st)"
    using invalid_option[where d = getopt_init and i = 1 and argv = "[''ovdk'', ''-p'']"
        and c = "CHR ''p''" and cs = "[]" and li = 0 and st = ?st and nm = "''zz''"] p
    by simp
  have c: "parse_loop [''ovdk'', ''--zz=1''] 0 getopt_init ?st =
       (Exited EXIT_FAILURE
          (''Invalid option '' @ [CHR 0x27] @ ''--'' @ [''ovdk'', ''--zz=1''] ! 1 @ [CHR 0x27, CHR 0x0A]),
        ovdk_args_usage (progname ?st) ?st)"
    using invalid_option[where d = getopt_init and i = 1 and argv = "[''ovdk'', ''--zz=1'']"
        and c = "CHR ''z''" and cs = "[]" and li = 0 and st = ?st and nm = "''zz''"] p
    by (simp add: PARAM_STATS_INTERVAL_def PARAM_STATS_CORE_def)
  have d: "parse_loop [''ovdk'', ''--stats_int''] 0 getopt_init ?st =
       (Exited EXIT_FAILURE
          (''Invalid option '' @ [CHR 0x27] @ ''--'' @ [''ovdk'', ''--stats_int''] ! 1
             @ [CHR 0x27, CHR 0x0A]),
        ovdk_args_usage (progname ?st) ?st)"
    using invalid_option[where d = getopt_init and i = 1 and argv = "[''ovdk'', ''--stats_int'']"
        and c = "CHR ''z''" and cs = "[]" and li = 0 and st = ?st and nm = "''zz''"] p
    by (simp add: PARAM_STATS_INTERVAL_def PARAM_STATS_CORE_def)
  show ?thesis
    using a b c d
    by (simp add: ovdk_args_parse_app_args_def usage_and_exit_def ovdk_args_usage_def)
qed

section \<open>The loop as a whole\<close>

lemma getopt_short_shape:
  assumes "getopt_short argv ''p:v:J:'' li d = (opt, li', d')"
  shows "opt = 63 \<or> ((opt = 112 \<or> opt = 118 \<or> opt = 74) \<and> optarg d' \<noteq> None)"
proof (cases "nextchar d")
  case Nil
  then show ?thesis
    using assms by (simp add: getopt_short_def)
next
  case (Cons c cs)
  show ?thesis
  proof (cases "c = CHR ''p'' \<or> c = CHR ''v'' \<or> c = CHR ''J''")
    case True
    then show ?thesis
      using assms getopt_short_known[OF Cons True, of argv li]
      by (auto split: if_splits)
  next
    case False
    then show ?thesis
      using assms getopt_short_unknown[OF Cons, of argv li] by auto
  qed
qed

lemma process_long_option_shape:
  assumes "process_long_option argv ''p:v:J:'' lgopts li d = (opt, li', d')"
  shows "opt = 63 \<or> (opt = 0 \<and> li' < 2 \<and> optarg d' \<noteq> None)"
  using assms
  by (auto simp: process_long_option_def Let_def find_long_lgopts missing_arg_code_def
      split: if_splits)

lemma getopt_long_shape:
  assumes "getopt_long argv ''p:v:J:'' lgopts li d = (opt, li', d')"
  shows "opt = EOF \<or> opt = 63 \<or> ((opt = 112 \<or> opt = 118 \<or> opt = 74) \<and> optarg d' \<noteq> None)
         \<or> (opt = 0 \<and> li' < 2 \<and> optarg d' \<noteq> None)"
proof -
  consider (eof) "opt = EOF"
    | (long) d0 where "process_long_option argv ''p:v:J:'' lgopts li d0 = (opt, li', d')"
    | (short) d0 where "getopt_short argv ''p:v:J:'' li d0 = (opt, li', d')"
    using assms by (auto simp: getopt_long_def Let_def split: if_splits)
  then show ?thesis
  proof cases
    case eof
    then show ?thesis by simp
  next
    case long
    then show ?thesis using process_long_option_shape by blast
  next
    case short
    then show ?thesis using getopt_short_shape by blast
  qed
qed

lemma parse_portmask_valid:
  "parse_portmask a st =
     (if valid_portmask a then (0, st\<lparr>port_mask := fst (strtoul a 16)\<rparr>) else (- 1, st))"
  by (cases "strtoul a 16") (auto simp: parse_portmask_def valid_portmask_def PORTMASK_BASE_def)

lemma parse_log_level_valid:
  "parse_log_level (Some a) st =
     (if valid_log_level a then (0, st\<lparr>log_level := ucast (fst (strtoul a 10))\<rparr>) else (- 1, st))"
  by (cases "strtoul a 10")
     (auto simp: parse_log_level_def valid_log_level_def LOG_LEVEL_BASE_def RTE_LOG_DEBUG_def
        not_less)

lemma parse_str_to_uint32t_valid:
  "parse_str_to_uint32t (Some a) num =
     (if valid_frame_size a then (0, ucast (fst (strtoul a 10))) else (- 1, num))"
  by (cases "strtoul a 10") (auto simp: parse_str_to_uint32t_def valid_frame_size_def)

lemma switch_opt_p:
  assumes "optarg d = Some a"
  shows "switch_opt argv 112 li d st =
     (if accepted (112, li, d) then Inr (st\<lparr>port_mask := fst (strtoul a 16)\<rparr>)
      else Inl (Exited EXIT_FAILURE
                  (''Invalid option specified '' @ [CHR 0x27] @ ''p'' @ [CHR 0x27, CHR 0x0A]),
                ovdk_args_usage (progname st) st))"
  using assms
  by (simp add: switch_opt_def parse_portmask_valid accepted_def arg_of_def char_of_112)

lemma switch_opt_v:
  assumes "optarg d = Some a"
  shows "switch_opt argv 118 li d st =
     (if accepted (118, li, d) then Inr (st\<lparr>log_level := ucast (fst (strtoul a 10))\<rparr>)
      else Inl (Exited EXIT_FAILURE
                  (''Invalid log level specified '' @ [CHR 0x27] @ a @ [CHR 0x27, CHR 0x0A]),
                ovdk_args_usage (progname st) st))"
  using assms
  by (simp add: switch_opt_def parse_log_level_valid accepted_def arg_of_def)

lemma switch_opt_J:
  assumes "optarg d = Some a"
  shows "switch_opt argv 74 li d st =
     (if accepted (74, li, d) then Inr (st\<lparr>max_frame_size := ucast (fst (strtoul a 10))\<rparr>)
      else Inl (Returned (- 1), ovdk_args_usage (progname st) st))"
  using assms
  by (simp add: switch_opt_def parse_str_to_uint32t_valid accepted_def arg_of_def)

lemma switch_opt_0:
  assumes "optarg d = Some a" "li < 2"
  shows "switch_opt argv 0 li d st =
     Inr (if li = 0 then st\<lparr>stats_interval := atoi a\<rparr> else st\<lparr>stats_core := atoi a\<rparr>)"
proof -
  have "li = 0 \<or> li = 1"
    using assms(2) by auto
  then show ?thesis
    using assms(1)
    by (elim disjE)
       (simp_all add: switch_opt_def lgopts_def strncmp_def PARAM_STATS_INTERVAL_def
          PARAM_STATS_CORE_def)
qed

lemma accepted_0: "accepted (0, li, d)"
  by (simp add: accepted_def)

lemma accepted_63: "\<not> accepted (63, li, d)"
  by (simp add: accepted_def)

text \<open>One iteration of the loop, for each value \<^verbatim>\<open>getopt_long\<close> can return.\<close>

lemma switch_opt_accepted:
  assumes "getopt_long argv ''p:v:J:'' lgopts li0 d0 = (opt, li, d)" "opt \<noteq> EOF"
    and "accepted (opt, li, d)"
  shows "\<exists>st'. switch_opt argv opt li d st = Inr st'"
proof -
  from getopt_long_shape[OF assms(1)] assms(2)
  consider "opt = 63" | a where "opt = 112" "optarg d = Some a"
    | a where "opt = 118" "optarg d = Some a" | a where "opt = 74" "optarg d = Some a"
    | a where "opt = 0" "li < 2" "optarg d = Some a"
    by auto
  then show ?thesis
  proof cases
    case 1
    then show ?thesis using assms(3) by (simp add: accepted_63)
  next
    case 2
    then show ?thesis using assms(3) by (simp add: switch_opt_p)
  next
    case 3
    then show ?thesis using assms(3) by (simp add: switch_opt_v)
  next
    case 4
    then show ?thesis using assms(3) by (simp add: switch_opt_J)
  next
    case 5
    then show ?thesis by (simp add: switch_opt_0)
  qed
qed

lemma switch_opt_refused:
  assumes "getopt_long argv ''p:v:J:'' lgopts li0 d0 = (opt, li, d)" "opt \<noteq> EOF"
    and "\<not> accepted (opt, li, d)"
  shows "\<exists>out. switch_opt argv opt li d st = Inl (out, ovdk_args_usage (progname st) st)
           \<and> (if opt = 74 then out = Returned (- 1) else terminated out)"
proof -
  from getopt_long_shape[OF assms(1)] assms(2)
  consider "opt = 63" | a where "opt = 112" "optarg d = Some a"
    | a where "opt = 118" "optarg d = Some a" | a where "opt = 74" "optarg d = Some a"
    | a where "opt = 0" "li < 2" "optarg d = Some a"
    by auto
  then show ?thesis
  proof cases
    case 1
    then show ?thesis by (simp add: switch_opt_error terminated_def)
  next
    case 2
    then show ?thesis using assms(3) by (simp add: switch_opt_p terminated_def)
  next
    case 3
    then show ?thesis using assms(3) by (simp add: switch_opt_v terminated_def)
  next
    case 4
    then show ?thesis using assms(3) by (simp add: switch_opt_J)
  next
    case 5
    then show ?thesis using assms(3) by (simp add: accepted_0)
  qed
qed

lemma parse_loop_outcome:
  "(case find (\<lambda>e. \<not> accepted e) (getopt_events argv li d) of
      None \<Rightarrow> fst (parse_loop argv li d st) = Returned 0
    | Some (opt, li', d') \<Rightarrow>
        if opt = of_char CHR ''J'' then fst (parse_loop argv li d st) = Returned (- 1)
        else terminated (fst (parse_loop argv li d st)))"
proof (induction argv li d st rule: parse_loop.induct)
  case (1 argv li d st)
  obtain opt li' d' where g: "getopt_long argv ''p:v:J:'' lgopts li d = (opt, li', d')"
    by (cases "getopt_long argv ''p:v:J:'' lgopts li d") auto
  show ?case
  proof (cases "opt = EOF")
    case True
    then show ?thesis
      using g by (subst getopt_events.simps, subst parse_loop.simps) simp
  next
    case False
    have ev: "getopt_events argv li d = (opt, li', d') # getopt_events argv li' d'"
      using g False by (subst getopt_events.simps) simp
    show ?thesis
    proof (cases "accepted (opt, li', d')")
      case True
      then obtain st' where sw: "switch_opt argv opt li' d' st = Inr st'"
        using switch_opt_accepted[OF g False] by blast
      have pl: "parse_loop argv li d st = parse_loop argv li' d' st'"
        using g False sw by (subst parse_loop.simps) simp
      have "(case find (\<lambda>e. \<not> accepted e) (getopt_events argv li' d') of
              None \<Rightarrow> fst (parse_loop argv li' d' st') = Returned 0
            | Some (opt, li'', d'') \<Rightarrow>
                if opt = of_char CHR ''J'' then fst (parse_loop argv li' d' st') = Returned (- 1)
                else terminated (fst (parse_loop argv li' d' st')))"
        using "1.IH"[OF g[symmetric] refl False sw] .
      then show ?thesis
        unfolding ev pl using True by simp
    next
      case nacc: False
      then obtain out where sw: "switch_opt argv opt li' d' st = Inl (out, ovdk_args_usage (progname st) st)"
        and k: "if opt = 74 then out = Returned (- 1) else terminated out"
        using switch_opt_refused[OF g False] by blast
      have pl: "parse_loop argv li d st = (out, ovdk_args_usage (progname st) st)"
        using g False sw by (subst parse_loop.simps) simp
      show ?thesis
        unfolding ev pl using nacc k by simp
    qed
  qed
qed

lemma getopt_events_codes:
  "list_all (\<lambda>(opt, li, d). opt = of_char CHR ''p'' \<or> opt = of_char CHR ''v''
                \<or> opt = of_char CHR ''J'' \<or> opt = 0 \<or> opt = of_char CHR ''?'')
     (getopt_events argv li d)"
proof (induction argv li d rule: getopt_events.induct)
  case (1 argv li d)
  obtain opt li' d' where g: "getopt_long argv ''p:v:J:'' lgopts li d = (opt, li', d')"
    by (cases "getopt_long argv ''p:v:J:'' lgopts li d") auto
  show ?case
  proof (cases "opt = EOF")
    case True
    then show ?thesis
      using g by (subst getopt_events.simps) simp
  next
    case False
    have ev: "getopt_events argv li d = (opt, li', d') # getopt_events argv li' d'"
      using g False by (subst getopt_events.simps) simp
    have "opt = 112 \<or> opt = 118 \<or> opt = 74 \<or> opt = 0 \<or> opt = 63"
      using getopt_long_shape[OF g] False by auto
    then show ?thesis
      unfolding ev using "1.IH"[OF g[symmetric] refl False] by simp
  qed
qed

text \<open>
  C4. The parser returns 0 exactly when every option \<^verbatim>\<open>getopt_long\<close> delivers up to the
  end of the argument vector is accepted. Otherwise the first option that is not
  accepted decides: a frame size that fails validation makes the function return \<open>-1\<close>,
  and everything else (a port mask or a log level that fails validation, or the \<^verbatim>\<open>?\<close> of
  an unrecognised option or a missing argument) ends the process with \<^verbatim>\<open>EXIT_FAILURE\<close>.
  These are all the outcomes: \<^verbatim>\<open>getopt_long\<close> returns nothing but the three option
  characters, 0 and \<^verbatim>\<open>?\<close> before \<^verbatim>\<open>EOF\<close>.
\<close>

theorem return_contract:
  "(case find (\<lambda>e. \<not> accepted e) (getopt_events argv 0 getopt_init) of
      None \<Rightarrow> fst (ovdk_args_parse_app_args argv st) = Returned 0
    | Some (opt, li, d) \<Rightarrow>
        if opt = of_char CHR ''J'' then fst (ovdk_args_parse_app_args argv st) = Returned (- 1)
        else terminated (fst (ovdk_args_parse_app_args argv st)))
   \<and> ((fst (ovdk_args_parse_app_args argv st) = Returned 0)
        = list_all accepted (getopt_events argv 0 getopt_init))
   \<and> list_all (\<lambda>(opt, li, d). opt = of_char CHR ''p'' \<or> opt = of_char CHR ''v''
                  \<or> opt = of_char CHR ''J'' \<or> opt = 0 \<or> opt = of_char CHR ''?'')
        (getopt_events argv 0 getopt_init)"
proof (intro conjI)
  let ?es = "getopt_events argv 0 getopt_init"
  let ?out = "fst (ovdk_args_parse_app_args argv st)"
  show c: "(case find (\<lambda>e. \<not> accepted e) ?es of
      None \<Rightarrow> ?out = Returned 0
    | Some (opt, li, d) \<Rightarrow>
        if opt = of_char CHR ''J'' then ?out = Returned (- 1) else terminated ?out)"
    unfolding ovdk_args_parse_app_args_def by (rule parse_loop_outcome)
  show "(?out = Returned 0) = list_all accepted ?es"
  proof (cases "find (\<lambda>e. \<not> accepted e) ?es")
    case None
    then have "list_all accepted ?es"
      by (auto simp: find_None_iff list_all_iff)
    then show ?thesis
      using c None by simp
  next
    case (Some e)
    then have "\<not> list_all accepted ?es"
      by (auto simp: find_Some_iff list_all_iff)
    moreover have "?out \<noteq> Returned 0"
      using c Some by (cases e) (auto simp: terminated_def split: if_splits)
    ultimately show ?thesis
      by simp
  qed
  show "list_all (\<lambda>(opt, li, d). opt = of_char CHR ''p'' \<or> opt = of_char CHR ''v''
                  \<or> opt = of_char CHR ''J'' \<or> opt = 0 \<or> opt = of_char CHR ''?'') ?es"
    by (rule getopt_events_codes)
qed

lemmas validation_defs = valid_portmask_def valid_log_level_def valid_frame_size_def accepted_def
  arg_of_def number_defs

theorem return_contract_witness:
  "fst (ovdk_args_parse_app_args [''ovdk'', ''-J'', ''0''] (initial_config 64)) = Returned (- 1)
   \<and> terminated (fst (ovdk_args_parse_app_args [''ovdk'', ''-p'', ''zz''] (initial_config 64)))
   \<and> fst (ovdk_args_parse_app_args [''ovdk'', ''-p'', ''f''] (initial_config 64)) = Returned 0"
proof (intro conjI)
  have e1: "getopt_events [''ovdk'', ''-J'', ''0''] 0 getopt_init =
      [(74, 0, \<lparr>optind = 3, nextchar = [], optarg = Some ''0'', optopt = 63\<rparr>)]"
    by (subst getopt_events.simps, simp add: getopt_defs)
       (subst getopt_events.simps, simp add: getopt_defs)
  show "fst (ovdk_args_parse_app_args [''ovdk'', ''-J'', ''0''] (initial_config 64)) = Returned (- 1)"
    using return_contract[of "[''ovdk'', ''-J'', ''0'']" "initial_config 64"]
    by (simp add: e1 validation_defs)
  have e2: "getopt_events [''ovdk'', ''-p'', ''zz''] 0 getopt_init =
      [(112, 0, \<lparr>optind = 3, nextchar = [], optarg = Some ''zz'', optopt = 63\<rparr>)]"
    by (subst getopt_events.simps, simp add: getopt_defs)
       (subst getopt_events.simps, simp add: getopt_defs)
  show "terminated (fst (ovdk_args_parse_app_args [''ovdk'', ''-p'', ''zz''] (initial_config 64)))"
    using return_contract[of "[''ovdk'', ''-p'', ''zz'']" "initial_config 64"]
    by (simp add: e2 validation_defs)
  have e3: "getopt_events [''ovdk'', ''-p'', ''f''] 0 getopt_init =
      [(112, 0, \<lparr>optind = 3, nextchar = [], optarg = Some ''f'', optopt = 63\<rparr>)]"
    by (subst getopt_events.simps, simp add: getopt_defs)
       (subst getopt_events.simps, simp add: getopt_defs)
  show "fst (ovdk_args_parse_app_args [''ovdk'', ''-p'', ''f''] (initial_config 64)) = Returned 0"
    using return_contract[of "[''ovdk'', ''-p'', ''f'']" "initial_config 64"]
    by (simp add: e3 validation_defs)
qed

section \<open>What the loop writes\<close>

lemma switch_opt_effect:
  assumes "getopt_long argv ''p:v:J:'' lgopts li0 d0 = (opt, li, d)" "opt \<noteq> EOF"
    and "accepted (opt, li, d)"
  shows "switch_opt argv opt li d st = Inr (option_effect (opt, li, d) st)"
proof -
  from getopt_long_shape[OF assms(1)] assms(2)
  consider "opt = 63" | a where "opt = 112" "optarg d = Some a"
    | a where "opt = 118" "optarg d = Some a" | a where "opt = 74" "optarg d = Some a"
    | a where "opt = 0" "li < 2" "optarg d = Some a"
    by auto
  then show ?thesis
  proof cases
    case 1
    then show ?thesis using assms(3) by (simp add: accepted_63)
  next
    case 2
    then show ?thesis using assms(3) by (simp add: switch_opt_p option_effect_def arg_of_def)
  next
    case 3
    then show ?thesis using assms(3) by (simp add: switch_opt_v option_effect_def arg_of_def)
  next
    case 4
    then show ?thesis using assms(3) by (simp add: switch_opt_J option_effect_def arg_of_def)
  next
    case 5
    then show ?thesis by (simp add: switch_opt_0 option_effect_def arg_of_def)
  qed
qed

lemma progname_option_effect: "progname (option_effect e st) = progname st"
  by (cases e) (simp add: option_effect_def)

lemma progname_foldl_effect:
  "progname (foldl (\<lambda>s e. option_effect e s) st es) = progname st"
  by (induction es arbitrary: st) (simp_all add: progname_option_effect)

lemma parse_loop_state:
  "snd (parse_loop argv li d st) =
     (if list_all accepted (getopt_events argv li d)
      then foldl (\<lambda>s e. option_effect e s) st (getopt_events argv li d)
      else ovdk_args_usage (progname st)
             (foldl (\<lambda>s e. option_effect e s) st (takeWhile accepted (getopt_events argv li d))))"
proof (induction argv li d st rule: parse_loop.induct)
  case (1 argv li d st)
  obtain opt li' d' where g: "getopt_long argv ''p:v:J:'' lgopts li d = (opt, li', d')"
    by (cases "getopt_long argv ''p:v:J:'' lgopts li d") auto
  show ?case
  proof (cases "opt = EOF")
    case True
    then show ?thesis
      using g by (subst (1 2 3) getopt_events.simps, subst parse_loop.simps) simp
  next
    case False
    have ev: "getopt_events argv li d = (opt, li', d') # getopt_events argv li' d'"
      using g False by (subst getopt_events.simps) simp
    show ?thesis
    proof (cases "accepted (opt, li', d')")
      case True
      have sw: "switch_opt argv opt li' d' st = Inr (option_effect (opt, li', d') st)"
        using g False True by (rule switch_opt_effect)
      have pl: "parse_loop argv li d st = parse_loop argv li' d' (option_effect (opt, li', d') st)"
        using g False sw by (subst parse_loop.simps) simp
      show ?thesis
        unfolding ev pl "1.IH"[OF g[symmetric] refl False sw]
        using True by (simp add: progname_option_effect)
    next
      case nacc: False
      then obtain out where sw: "switch_opt argv opt li' d' st = Inl (out, ovdk_args_usage (progname st) st)"
        using switch_opt_refused[OF g False] by blast
      have pl: "parse_loop argv li d st = (out, ovdk_args_usage (progname st) st)"
        using g False sw by (subst parse_loop.simps) simp
      show ?thesis
        unfolding ev pl using nacc by simp
    qed
  qed
qed

lemma foldl_effect_field:
  assumes "\<And>e s. e \<in> set es \<Longrightarrow> f (option_effect e s) = f s \<or> W e (f (option_effect e s))"
  shows "f (foldl (\<lambda>s e. option_effect e s) st es) = f st
         \<or> (\<exists>e\<in>set es. W e (f (foldl (\<lambda>s e. option_effect e s) st es)))"
  using assms
proof (induction es rule: rev_induct)
  case Nil
  then show ?case by simp
next
  case (snoc x xs)
  let ?s = "foldl (\<lambda>s e. option_effect e s) st xs"
  have ih: "f ?s = f st \<or> (\<exists>e\<in>set xs. W e (f ?s))"
    using snoc by simp
  have step: "f (option_effect x ?s) = f ?s \<or> W x (f (option_effect x ?s))"
    using snoc.prems by simp
  show ?case
    using ih step by auto
qed

lemma parse_state_fields:
  fixes f :: "app_config \<Rightarrow> 'a"
  assumes eff: "\<And>e s. f (option_effect e s) = f s \<or> W e (f (option_effect e s))"
    and usage: "\<And>n s. f (ovdk_args_usage n s) = f s"
    and prog: "\<And>n s. f (s\<lparr>progname := n\<rparr>) = f s"
  shows "f (snd (ovdk_args_parse_app_args argv st)) = f st
         \<or> (\<exists>e\<in>set (takeWhile accepted (getopt_events argv 0 getopt_init)).
               accepted e \<and> W e (f (snd (ovdk_args_parse_app_args argv st))))"
proof -
  let ?es = "getopt_events argv 0 getopt_init"
  let ?st = "st\<lparr>progname := (if argv = [] then None else Some (argv ! 0))\<rparr>"
  let ?fin = "foldl (\<lambda>s e. option_effect e s) ?st (takeWhile accepted ?es)"
  have "f (snd (ovdk_args_parse_app_args argv st)) = f ?fin"
  proof (cases "list_all accepted ?es")
    case True
    have tw: "takeWhile accepted ?es = ?es"
      using True by (simp add: list_all_iff)
    have "snd (ovdk_args_parse_app_args argv st) = foldl (\<lambda>s e. option_effect e s) ?st ?es"
      using True by (simp add: ovdk_args_parse_app_args_def parse_loop_state)
    then show ?thesis
      by (simp only: tw)
  next
    case False
    then show ?thesis
      by (simp add: ovdk_args_parse_app_args_def parse_loop_state usage)
  qed
  moreover have "f ?fin = f ?st \<or> (\<exists>e\<in>set (takeWhile accepted ?es). W e (f ?fin))"
    by (rule foldl_effect_field) (rule eff)
  moreover have "accepted e" if "e \<in> set (takeWhile accepted ?es)" for e
    using that by (auto dest: set_takeWhileD)
  ultimately show ?thesis
    by (auto simp: prog)
qed

lemma getopt_events_index:
  "list_all (\<lambda>(opt, li, d). opt = 0 \<longrightarrow> li < 2) (getopt_events argv li d)"
proof (induction argv li d rule: getopt_events.induct)
  case (1 argv li d)
  obtain opt li' d' where g: "getopt_long argv ''p:v:J:'' lgopts li d = (opt, li', d')"
    by (cases "getopt_long argv ''p:v:J:'' lgopts li d") auto
  show ?case
  proof (cases "opt = EOF")
    case True
    then show ?thesis
      using g by (subst getopt_events.simps) simp
  next
    case False
    have ev: "getopt_events argv li d = (opt, li', d') # getopt_events argv li' d'"
      using g False by (subst getopt_events.simps) simp
    have "opt = 0 \<longrightarrow> li' < 2"
      using getopt_long_shape[OF g] by (auto simp: EOF_def)
    then show ?thesis
      unfolding ev using "1.IH"[OF g[symmetric] refl False] by simp
  qed
qed

lemma bex_tripleI: "(opt, li, d) \<in> S \<Longrightarrow> P opt li d \<Longrightarrow> \<exists>(opt, li, d)\<in>S. P opt li d"
  by blast

text \<open>
  C5, as amended. A variable that parsing has changed was written for an occurrence of
  its own option, among the options accepted before the first refused one, and it
  holds the whole converted value of that occurrence's argument, which has passed
  validation (the two statistics options have none). The final configuration is the
  initial one with the accepted options' writes applied in order, each occurrence of an
  option overwriting what an earlier one wrote; a refused option writes nothing, only the
  usage text is printed.
\<close>

theorem writes_after_validation:
  "(port_mask (snd (ovdk_args_parse_app_args argv st)) \<noteq> port_mask st \<longrightarrow>
      (\<exists>(opt, li, d)\<in>set (takeWhile accepted (getopt_events argv 0 getopt_init)).
          opt = of_char CHR ''p'' \<and> valid_portmask (arg_of d)
          \<and> port_mask (snd (ovdk_args_parse_app_args argv st)) = fst (strtoul (arg_of d) 16)))
   \<and> (log_level (snd (ovdk_args_parse_app_args argv st)) \<noteq> log_level st \<longrightarrow>
      (\<exists>(opt, li, d)\<in>set (takeWhile accepted (getopt_events argv 0 getopt_init)).
          opt = of_char CHR ''v'' \<and> valid_log_level (arg_of d)
          \<and> log_level (snd (ovdk_args_parse_app_args argv st))
              = ucast (fst (strtoul (arg_of d) 10))))
   \<and> (max_frame_size (snd (ovdk_args_parse_app_args argv st)) \<noteq> max_frame_size st \<longrightarrow>
      (\<exists>(opt, li, d)\<in>set (takeWhile accepted (getopt_events argv 0 getopt_init)).
          opt = of_char CHR ''J'' \<and> valid_frame_size (arg_of d)
          \<and> max_frame_size (snd (ovdk_args_parse_app_args argv st))
              = ucast (fst (strtoul (arg_of d) 10))))
   \<and> (stats_interval (snd (ovdk_args_parse_app_args argv st)) \<noteq> stats_interval st \<longrightarrow>
      (\<exists>(opt, li, d)\<in>set (takeWhile accepted (getopt_events argv 0 getopt_init)).
          opt = 0 \<and> li = 0
          \<and> stats_interval (snd (ovdk_args_parse_app_args argv st)) = atoi (arg_of d)))
   \<and> (stats_core (snd (ovdk_args_parse_app_args argv st)) \<noteq> stats_core st \<longrightarrow>
      (\<exists>(opt, li, d)\<in>set (takeWhile accepted (getopt_events argv 0 getopt_init)).
          opt = 0 \<and> li = 1
          \<and> stats_core (snd (ovdk_args_parse_app_args argv st)) = atoi (arg_of d)))
   \<and> snd (ovdk_args_parse_app_args argv st) =
       (if list_all accepted (getopt_events argv 0 getopt_init)
        then foldl (\<lambda>s e. option_effect e s)
               (st\<lparr>progname := (if argv = [] then None else Some (argv ! 0))\<rparr>)
               (getopt_events argv 0 getopt_init)
        else ovdk_args_usage (if argv = [] then None else Some (argv ! 0))
               (foldl (\<lambda>s e. option_effect e s)
                  (st\<lparr>progname := (if argv = [] then None else Some (argv ! 0))\<rparr>)
                  (takeWhile accepted (getopt_events argv 0 getopt_init))))"
proof (intro conjI impI)
  let ?es = "takeWhile accepted (getopt_events argv 0 getopt_init)"
  let ?fin = "snd (ovdk_args_parse_app_args argv st)"
  assume "port_mask ?fin \<noteq> port_mask st"
  moreover have "port_mask ?fin = port_mask st
      \<or> (\<exists>e\<in>set ?es. accepted e \<and>
            (\<lambda>e. case e of (opt, li, d) \<Rightarrow>
               opt = of_char CHR ''p'' \<and> port_mask ?fin = fst (strtoul (arg_of d) 16)) e)"
      (is "_ \<or> (\<exists>e\<in>_. _ \<and> ?w e)")
    by (rule parse_state_fields[where f = port_mask
          and W = "\<lambda>e v. case e of (opt, li, d) \<Rightarrow>
                     opt = of_char CHR ''p'' \<and> v = fst (strtoul (arg_of d) 16)"])
       (auto simp: option_effect_def ovdk_args_usage_def split: if_splits)
  ultimately obtain e where e: "e \<in> set ?es" "accepted e" and w: "?w e"
    by blast
  obtain opt li d where t: "e = (opt, li, d)"
    by (cases e)
  show "\<exists>(opt, li, d)\<in>set ?es.
          opt = of_char CHR ''p'' \<and> valid_portmask (arg_of d)
          \<and> port_mask ?fin = fst (strtoul (arg_of d) 16)"
    using e w unfolding t by (intro bex_tripleI[of opt li d]) (simp_all add: accepted_def)
next
  let ?es = "takeWhile accepted (getopt_events argv 0 getopt_init)"
  let ?fin = "snd (ovdk_args_parse_app_args argv st)"
  assume "log_level ?fin \<noteq> log_level st"
  moreover have "log_level ?fin = log_level st
      \<or> (\<exists>e\<in>set ?es. accepted e \<and>
            (\<lambda>e. case e of (opt, li, d) \<Rightarrow>
               opt = of_char CHR ''v'' \<and> log_level ?fin = ucast (fst (strtoul (arg_of d) 10))) e)"
      (is "_ \<or> (\<exists>e\<in>_. _ \<and> ?w e)")
    by (rule parse_state_fields[where f = log_level
          and W = "\<lambda>e v. case e of (opt, li, d) \<Rightarrow>
                     opt = of_char CHR ''v'' \<and> v = ucast (fst (strtoul (arg_of d) 10))"])
       (auto simp: option_effect_def ovdk_args_usage_def split: if_splits)
  ultimately obtain e where e: "e \<in> set ?es" "accepted e" and w: "?w e"
    by blast
  obtain opt li d where t: "e = (opt, li, d)"
    by (cases e)
  show "\<exists>(opt, li, d)\<in>set ?es.
          opt = of_char CHR ''v'' \<and> valid_log_level (arg_of d)
          \<and> log_level ?fin = ucast (fst (strtoul (arg_of d) 10))"
    using e w unfolding t by (intro bex_tripleI[of opt li d]) (simp_all add: accepted_def)
next
  let ?es = "takeWhile accepted (getopt_events argv 0 getopt_init)"
  let ?fin = "snd (ovdk_args_parse_app_args argv st)"
  assume "max_frame_size ?fin \<noteq> max_frame_size st"
  moreover have "max_frame_size ?fin = max_frame_size st
      \<or> (\<exists>e\<in>set ?es. accepted e \<and>
            (\<lambda>e. case e of (opt, li, d) \<Rightarrow>
               opt = of_char CHR ''J''
               \<and> max_frame_size ?fin = ucast (fst (strtoul (arg_of d) 10))) e)"
      (is "_ \<or> (\<exists>e\<in>_. _ \<and> ?w e)")
    by (rule parse_state_fields[where f = max_frame_size
          and W = "\<lambda>e v. case e of (opt, li, d) \<Rightarrow>
                     opt = of_char CHR ''J'' \<and> v = ucast (fst (strtoul (arg_of d) 10))"])
       (auto simp: option_effect_def ovdk_args_usage_def split: if_splits)
  ultimately obtain e where e: "e \<in> set ?es" "accepted e" and w: "?w e"
    by blast
  obtain opt li d where t: "e = (opt, li, d)"
    by (cases e)
  show "\<exists>(opt, li, d)\<in>set ?es.
          opt = of_char CHR ''J'' \<and> valid_frame_size (arg_of d)
          \<and> max_frame_size ?fin = ucast (fst (strtoul (arg_of d) 10))"
    using e w unfolding t by (intro bex_tripleI[of opt li d]) (simp_all add: accepted_def)
next
  let ?es = "takeWhile accepted (getopt_events argv 0 getopt_init)"
  let ?fin = "snd (ovdk_args_parse_app_args argv st)"
  assume "stats_interval ?fin \<noteq> stats_interval st"
  moreover have "stats_interval ?fin = stats_interval st
      \<or> (\<exists>e\<in>set ?es. accepted e \<and>
            (\<lambda>e. case e of (opt, li, d) \<Rightarrow>
               opt \<noteq> of_char CHR ''p'' \<and> opt \<noteq> of_char CHR ''v'' \<and> opt \<noteq> of_char CHR ''J''
               \<and> li = 0 \<and> stats_interval ?fin = atoi (arg_of d)) e)"
      (is "_ \<or> (\<exists>e\<in>_. _ \<and> ?w e)")
    by (rule parse_state_fields[where f = stats_interval
          and W = "\<lambda>e v. case e of (opt, li, d) \<Rightarrow>
                     opt \<noteq> of_char CHR ''p'' \<and> opt \<noteq> of_char CHR ''v''
                     \<and> opt \<noteq> of_char CHR ''J'' \<and> li = 0 \<and> v = atoi (arg_of d)"])
       (auto simp: option_effect_def ovdk_args_usage_def split: if_splits)
  ultimately obtain e where e: "e \<in> set ?es" "accepted e" and w: "?w e"
    by blast
  obtain opt li d where t: "e = (opt, li, d)"
    by (cases e)
  show "\<exists>(opt, li, d)\<in>set ?es.
          opt = 0 \<and> li = 0 \<and> stats_interval ?fin = atoi (arg_of d)"
    using e w unfolding t by (intro bex_tripleI[of opt li d]) (simp_all add: accepted_def)
next
  let ?es = "takeWhile accepted (getopt_events argv 0 getopt_init)"
  let ?fin = "snd (ovdk_args_parse_app_args argv st)"
  assume "stats_core ?fin \<noteq> stats_core st"
  moreover have "stats_core ?fin = stats_core st
      \<or> (\<exists>e\<in>set ?es. accepted e \<and>
            (\<lambda>e. case e of (opt, li, d) \<Rightarrow>
               opt \<noteq> of_char CHR ''p'' \<and> opt \<noteq> of_char CHR ''v'' \<and> opt \<noteq> of_char CHR ''J''
               \<and> li \<noteq> 0 \<and> stats_core ?fin = atoi (arg_of d)) e)"
      (is "_ \<or> (\<exists>e\<in>_. _ \<and> ?w e)")
    by (rule parse_state_fields[where f = stats_core
          and W = "\<lambda>e v. case e of (opt, li, d) \<Rightarrow>
                     opt \<noteq> of_char CHR ''p'' \<and> opt \<noteq> of_char CHR ''v''
                     \<and> opt \<noteq> of_char CHR ''J'' \<and> li \<noteq> 0 \<and> v = atoi (arg_of d)"])
       (auto simp: option_effect_def ovdk_args_usage_def split: if_splits)
  ultimately obtain e where e: "e \<in> set ?es" "accepted e" and w: "?w e"
    by blast
  obtain opt li d where t: "e = (opt, li, d)"
    by (cases e)
  have "(opt, li, d) \<in> set (getopt_events argv 0 getopt_init)"
    using e(1) unfolding t by (rule set_takeWhileD[THEN conjunct1])
  then have "opt = 0 \<longrightarrow> li < 2"
    using getopt_events_index[of argv 0 getopt_init] by (auto simp: list_all_iff)
  then show "\<exists>(opt, li, d)\<in>set ?es.
          opt = 0 \<and> li = 1 \<and> stats_core ?fin = atoi (arg_of d)"
    using e w unfolding t by (intro bex_tripleI[of opt li d]) (auto simp: accepted_def)
next
  show "snd (ovdk_args_parse_app_args argv st) =
       (if list_all accepted (getopt_events argv 0 getopt_init)
        then foldl (\<lambda>s e. option_effect e s)
               (st\<lparr>progname := (if argv = [] then None else Some (argv ! 0))\<rparr>)
               (getopt_events argv 0 getopt_init)
        else ovdk_args_usage (if argv = [] then None else Some (argv ! 0))
               (foldl (\<lambda>s e. option_effect e s)
                  (st\<lparr>progname := (if argv = [] then None else Some (argv ! 0))\<rparr>)
                  (takeWhile accepted (getopt_events argv 0 getopt_init))))"
    by (simp add: ovdk_args_parse_app_args_def parse_loop_state)
qed

lemma parse_str_to_uint32t_9000:
  "parse_str_to_uint32t (Some ''9000'') num = (0, 9000)"
  by (simp add: parse_str_to_uint32t_def number_defs)

lemma parse_all_options:
  "ovdk_args_parse_app_args
     [''ovdk'', ''-p'', ''f'', ''-v'', ''3'', ''-J'', ''9000'', ''--stats_int'', ''10'',
      ''--stats_core'', ''2'']
     (initial_config 64) =
     (Returned 0,
      \<lparr>progname = Some ''ovdk'', port_mask = 15, stats_interval = 10, stats_core = 2,
       log_level = 3, max_frame_size = 9000, printed = []\<rparr>)"
  apply (simp add: ovdk_args_parse_app_args_def initial_config_def)
  apply (subst parse_loop.simps, simp add: getopt_defs switch_opt_def parse_portmask_f)
  apply (subst parse_loop.simps, simp add: getopt_defs switch_opt_def parse_log_level_3)
  apply (subst parse_loop.simps, simp add: getopt_defs switch_opt_def parse_str_to_uint32t_9000)
  apply (subst parse_loop.simps, simp add: getopt_defs switch_opt_def strncmp_def atoi_10)
  apply (subst parse_loop.simps, simp add: getopt_defs switch_opt_def strncmp_def atoi_2)
  apply (simp add: parse_loop_end)
  done

theorem writes_after_validation_witness:
  "(\<exists>(opt, li, d)\<in>set (takeWhile accepted (getopt_events
        [''ovdk'', ''-p'', ''f'', ''-v'', ''3'', ''-J'', ''9000'', ''--stats_int'', ''10'',
         ''--stats_core'', ''2''] 0 getopt_init)).
      opt = of_char CHR ''p'' \<and> valid_portmask (arg_of d) \<and> 15 = fst (strtoul (arg_of d) 16))
   \<and> (\<exists>(opt, li, d)\<in>set (takeWhile accepted (getopt_events
        [''ovdk'', ''-p'', ''f'', ''-v'', ''3'', ''-J'', ''9000'', ''--stats_int'', ''10'',
         ''--stats_core'', ''2''] 0 getopt_init)).
      opt = of_char CHR ''v'' \<and> valid_log_level (arg_of d)
      \<and> (3 :: 32 word) = ucast (fst (strtoul (arg_of d) 10)))
   \<and> (\<exists>(opt, li, d)\<in>set (takeWhile accepted (getopt_events
        [''ovdk'', ''-p'', ''f'', ''-v'', ''3'', ''-J'', ''9000'', ''--stats_int'', ''10'',
         ''--stats_core'', ''2''] 0 getopt_init)).
      opt = of_char CHR ''J'' \<and> valid_frame_size (arg_of d)
      \<and> (9000 :: 32 word) = ucast (fst (strtoul (arg_of d) 10)))
   \<and> (\<exists>(opt, li, d)\<in>set (takeWhile accepted (getopt_events
        [''ovdk'', ''-p'', ''f'', ''-v'', ''3'', ''-J'', ''9000'', ''--stats_int'', ''10'',
         ''--stats_core'', ''2''] 0 getopt_init)).
      opt = 0 \<and> li = 0 \<and> 10 = atoi (arg_of d))
   \<and> (\<exists>(opt, li, d)\<in>set (takeWhile accepted (getopt_events
        [''ovdk'', ''-p'', ''f'', ''-v'', ''3'', ''-J'', ''9000'', ''--stats_int'', ''10'',
         ''--stats_core'', ''2''] 0 getopt_init)).
      opt = 0 \<and> li = 1 \<and> 2 = atoi (arg_of d))"
  using writes_after_validation[of
      "[''ovdk'', ''-p'', ''f'', ''-v'', ''3'', ''-J'', ''9000'', ''--stats_int'', ''10'',
        ''--stats_core'', ''2'']" "initial_config 64"]
  unfolding parse_all_options
  by (simp add: initial_config_def RTE_LOG_ERR_def)

lemma loop_states_last:
  "last (loop_states argv li d st) = snd (parse_loop argv li d st)"
proof (induction argv li d st rule: parse_loop.induct)
  case (1 argv li d st)
  obtain opt li' d' where g: "getopt_long argv ''p:v:J:'' lgopts li d = (opt, li', d')"
    by (cases "getopt_long argv ''p:v:J:'' lgopts li d") auto
  show ?case
  proof (cases "opt = EOF")
    case True
    then show ?thesis
      using g by (subst loop_states.simps, subst parse_loop.simps) simp
  next
    case False
    show ?thesis
    proof (cases "switch_opt argv opt li' d' st")
      case (Inl res)
      then show ?thesis
        using g False by (subst loop_states.simps, subst parse_loop.simps) simp
    next
      case (Inr st')
      have ne: "loop_states argv li' d' st' \<noteq> []"
        by (subst loop_states.simps) simp
      have "last (loop_states argv li d st) = last (loop_states argv li' d' st')"
        using g False Inr ne by (subst loop_states.simps) simp
      moreover have "parse_loop argv li d st = parse_loop argv li' d' st'"
        using g False Inr by (subst parse_loop.simps) simp
      ultimately show ?thesis
        using "1.IH"[OF g[symmetric] refl False Inr] by simp
    qed
  qed
qed

lemma parse_portmask_1: "parse_portmask ''1'' st = (0, st\<lparr>port_mask := 1\<rparr>)"
  by (simp add: parse_portmask_def PORTMASK_BASE_def number_defs)

lemma parse_portmask_0: "parse_portmask ''0'' st = (0, st\<lparr>port_mask := 0\<rparr>)"
  by (simp add: parse_portmask_def PORTMASK_BASE_def number_defs)

lemma parse_portmask_2: "parse_portmask ''2'' st = (0, st\<lparr>port_mask := 2\<rparr>)"
  by (simp add: parse_portmask_def PORTMASK_BASE_def number_defs)

text \<open>
  The claim as it stands has every variable leave its default at most once. An option
  may be repeated, and every accepted occurrence writes: on \<^verbatim>\<open>-p 1 -p 0 -p 2\<close> the loop
  passes through \<^verbatim>\<open>port_mask\<close> 0, 1, 0 and 2, so the variable leaves its default twice
  and returns to it in between. \<open>loop_states\<close> lists the configurations of the run that
  \<^verbatim>\<open>ovdk_args_parse_app_args\<close> makes.
\<close>

theorem writes_after_validation_counterexample:
  "map port_mask
     (loop_states [''ovdk'', ''-p'', ''1'', ''-p'', ''0'', ''-p'', ''2''] 0 getopt_init
        ((initial_config 64)\<lparr>progname := Some ''ovdk''\<rparr>)) = [0, 1, 0, 2]
   \<and> last (loop_states [''ovdk'', ''-p'', ''1'', ''-p'', ''0'', ''-p'', ''2''] 0 getopt_init
             ((initial_config 64)\<lparr>progname := Some ''ovdk''\<rparr>))
       = snd (ovdk_args_parse_app_args [''ovdk'', ''-p'', ''1'', ''-p'', ''0'', ''-p'', ''2'']
                (initial_config 64))
   \<and> fst (ovdk_args_parse_app_args [''ovdk'', ''-p'', ''1'', ''-p'', ''0'', ''-p'', ''2'']
            (initial_config 64)) = Returned 0"
proof (intro conjI)
  show "map port_mask
     (loop_states [''ovdk'', ''-p'', ''1'', ''-p'', ''0'', ''-p'', ''2''] 0 getopt_init
        ((initial_config 64)\<lparr>progname := Some ''ovdk''\<rparr>)) = [0, 1, 0, 2]"
    apply (simp add: initial_config_def)
    apply (subst loop_states.simps, simp add: getopt_defs switch_opt_def parse_portmask_1)
    apply (subst loop_states.simps, simp add: getopt_defs switch_opt_def parse_portmask_0)
    apply (subst loop_states.simps, simp add: getopt_defs switch_opt_def parse_portmask_2)
    apply (subst loop_states.simps, simp add: getopt_defs)
    done
  show "last (loop_states [''ovdk'', ''-p'', ''1'', ''-p'', ''0'', ''-p'', ''2''] 0 getopt_init
             ((initial_config 64)\<lparr>progname := Some ''ovdk''\<rparr>))
       = snd (ovdk_args_parse_app_args [''ovdk'', ''-p'', ''1'', ''-p'', ''0'', ''-p'', ''2'']
                (initial_config 64))"
    by (simp add: loop_states_last ovdk_args_parse_app_args_def)
  show "fst (ovdk_args_parse_app_args [''ovdk'', ''-p'', ''1'', ''-p'', ''0'', ''-p'', ''2'']
            (initial_config 64)) = Returned 0"
    apply (simp add: ovdk_args_parse_app_args_def initial_config_def)
    apply (subst parse_loop.simps, simp add: getopt_defs switch_opt_def parse_portmask_1)
    apply (subst parse_loop.simps, simp add: getopt_defs switch_opt_def parse_portmask_0)
    apply (subst parse_loop.simps, simp add: getopt_defs switch_opt_def parse_portmask_2)
    apply (simp add: parse_loop_end)
    done
qed

end
